theory Spec2Isabelle
  imports Complex_Main "HOL-Library.Word" "HOL-Library.Multiset"
begin

unbundle bit_operations_syntax

section \<open>Mapkeeper: serverless functions (functions/mapkeeper.js)\<close>

text \<open>
  JavaScript strings are modelled as HOL strings: one \<^typ>\<open>char\<close> stands for one UTF-16
  code unit below 256. Timestamps (\<open>Date.now()\<close>) are integers (milliseconds).
  The two module-level maps \<open>rateLimitStore\<close> and \<open>responseCache\<close> are passed explicitly.
\<close>

subsection \<open>Configuration\<close>

definition RATE_LIMIT_WINDOW :: int where
  "RATE_LIMIT_WINDOW = 60 * 1000"

definition RATE_LIMIT_MAX_REQUESTS :: nat where
  "RATE_LIMIT_MAX_REQUESTS = 30"

definition CACHE_TTL :: int where
  "CACHE_TTL = 60 * 60 * 1000"

subsection \<open>Strings and the rolling hash\<close>

text \<open>\<open>String(d)\<close> for a decimal digit \<open>d\<close>.\<close>

definition digit_char :: "nat \<Rightarrow> char" where
  "digit_char d = ''0123456789'' ! d"

fun digits :: "nat \<Rightarrow> string" where
  "digits n = (if n < 10 then [digit_char n] else digits (n div 10) @ [digit_char (n mod 10)])"

declare digits.simps [simp del]

text \<open>\<open>Number.prototype.toString()\<close> on an integer: decimal, with a leading minus sign.\<close>

definition toString :: "int \<Rightarrow> string" where
  "toString i = (if i < 0 then CHR ''-'' # digits (nat (- i)) else digits (nat i))"

text \<open>
  One round of the loop of \<open>hashString\<close>: \<open>hash << 5\<close> and \<open>hash & hash\<close> work on 32-bit
  integers, so the running hash is a 32-bit word; it is read as a signed value at the end.
\<close>

definition hash_step :: "char \<Rightarrow> 32 word \<Rightarrow> 32 word" where
  "hash_step c hash =
     (let char = of_nat (of_char c);
          hash1 = (push_bit 5 hash - hash) + char
      in hash1 AND hash1)"

definition hashString :: "string \<Rightarrow> string" where
  "hashString str = toString (sint (fold hash_step str 0))"

text \<open>\<open>systemPrompt || 'default'\<close>: an absent and an empty prompt both give the default.\<close>

definition prompt_or_default :: "string option \<Rightarrow> string" where
  "prompt_or_default systemPrompt =
     (case systemPrompt of None \<Rightarrow> ''default'' | Some p \<Rightarrow> if p = [] then ''default'' else p)"

definition getClientId :: "string option \<Rightarrow> string" where
  "getClientId systemPrompt = hashString (prompt_or_default systemPrompt)"

definition getCacheKey :: "string \<Rightarrow> string \<Rightarrow> string option \<Rightarrow> string" where
  "getCacheKey type ident systemPrompt =
     (let promptHash = hashString (prompt_or_default systemPrompt)
      in type @ '':'' @ ident @ '':'' @ promptHash)"

text \<open>\<open>Array.prototype.join\<close> and \<open>String.prototype.split\<close> with a one-character separator.\<close>

fun join :: "string \<Rightarrow> string list \<Rightarrow> string" where
  "join sep [] = []"
| "join sep [x] = x"
| "join sep (x # y # ys) = x @ sep @ join sep (y # ys)"

fun split :: "char \<Rightarrow> string \<Rightarrow> string list" where
  "split sep [] = [[]]"
| "split sep (c # cs) =
     (if c = sep then [] # split sep cs
      else (case split sep cs of w # ws \<Rightarrow> (c # w) # ws | [] \<Rightarrow> [[c]]))"

subsection \<open>Quotes, Rationales and cached payloads\<close>

record quote =
  quote_id :: string
  quote_text :: string
  author :: "string option"
  book_title :: "string option"

record rationale =
  title :: string
  rationale :: string
  labels :: "string list"

text \<open>
  The response cache holds what \<open>setCache\<close> was given: a parsed Rationale (suggest flow) or
  the narration text (route flow). A cached value is tested with \<open>if (cached)\<close>: an object is
  truthy, a string is truthy unless empty.
\<close>

datatype payload = Rationale rationale | Narration string

fun truthy :: "payload \<Rightarrow> bool" where
  "truthy (Rationale r) = True"
| "truthy (Narration n) = (n \<noteq> [])"

record cache_entry =
  data :: payload
  expires :: int

type_synonym response_cache = "string \<rightharpoonup> cache_entry"

type_synonym rate_store = "string \<rightharpoonup> int list"

record server_state =
  rateLimitStore :: rate_store
  responseCache :: response_cache

subsection \<open>Response cache: getFromCache, setCache\<close>

text \<open>
  \<open>getFromCache(key)\<close> at clock reading \<open>now\<close>: the returned value (\<open>None\<close> is
  JavaScript's \<open>null\<close>) and the cache afterwards.
\<close>

definition getFromCache :: "int \<Rightarrow> string \<Rightarrow> response_cache \<Rightarrow> payload option \<times> response_cache" where
  "getFromCache now key c =
     (case c key of
        None \<Rightarrow> (None, c)
      | Some entry \<Rightarrow>
          if now > expires entry then (None, c(key := None))
          else (Some (data entry), c))"

definition setCache :: "int \<Rightarrow> string \<Rightarrow> payload \<Rightarrow> response_cache \<Rightarrow> response_cache" where
  "setCache now key d c = c(key \<mapsto> \<lparr>data = d, expires = now + CACHE_TTL\<rparr>)"

subsection \<open>Rate limiter: checkRateLimit\<close>

text \<open>The cleaning loop over all entries of \<open>rateLimitStore\<close>.\<close>

definition clean_old :: "int \<Rightarrow> rate_store \<Rightarrow> rate_store" where
  "clean_old windowStart s =
     (\<lambda>id. case s id of
              None \<Rightarrow> None
            | Some timestamps \<Rightarrow>
                (let validTimestamps = filter (\<lambda>t. t > windowStart) timestamps
                 in if length validTimestamps = 0 then None else Some validTimestamps))"

definition checkRateLimit :: "int \<Rightarrow> string \<Rightarrow> rate_store \<Rightarrow> bool \<times> rate_store" where
  "checkRateLimit now clientId s =
     (let windowStart = now - RATE_LIMIT_WINDOW;
          s1 = clean_old windowStart s;
          clientTimestamps = (case s1 clientId of None \<Rightarrow> [] | Some ts \<Rightarrow> ts);
          recentRequests = filter (\<lambda>t. t > windowStart) clientTimestamps
      in if length recentRequests \<ge> RATE_LIMIT_MAX_REQUESTS then (False, s1)
         else (True, s1(clientId \<mapsto> recentRequests @ [now])))"

text \<open>
  A run of consecutive checks for one identity at the given clock readings: the answers in
  order and the store afterwards.
\<close>

fun check_all :: "int list \<Rightarrow> string \<Rightarrow> rate_store \<Rightarrow> bool list \<times> rate_store" where
  "check_all [] clientId s = ([], s)"
| "check_all (now # nows) clientId s =
     (let (ok, s1) = checkRateLimit now clientId s;
          (oks, s2) = check_all nows clientId s1
      in (ok # oks, s2))"

text \<open>The timestamps recorded for an identity (none when it has no entry).\<close>

definition recorded :: "rate_store \<Rightarrow> string \<Rightarrow> int list" where
  "recorded s clientId = (case s clientId of None \<Rightarrow> [] | Some ts \<Rightarrow> ts)"

subsection \<open>The AI client: callOpenAI and parseSuggestionResponse\<close>

text \<open>A thrown JavaScript \<open>Error\<close>, with its message.\<close>

datatype error = Error string

text \<open>
  What the outside world answers to the one \<open>fetch\<close> of a call: the request fails
  (\<open>fetch\<close> rejects with the given message), or a response with a status arrives. The body of
  a response either cannot be read as \<open>data.choices[0].message.content\<close> (not JSON, or not of
  that shape: the message of the error thrown) or yields that content. Reading the body of a
  response as text, which the code does before it throws on a status that is not 2xx, does
  not fail.
\<close>

datatype body = Unreadable string | Content string

datatype reply = NetworkFailure string | Response nat body

text \<open>\<open>response.ok\<close>\<close>

definition ok :: "nat \<Rightarrow> bool" where
  "ok status = (200 \<le> status \<and> status \<le> 299)"

text \<open>
  \<open>JSON.parse\<close> is a parameter of the model, restricted to what the code reads of its
  result. Either an error is thrown, by \<open>JSON.parse\<close> itself (a syntax error) or by reading
  a property of the parsed value \<open>null\<close> (a type error): \<open>Throws\<close> carries its message. Or
  the text parses to a value with the properties \<open>title\<close>, \<open>rationale\<close> (an absent property
  and an empty string are both falsy: \<open>[]\<close>) and \<open>labels\<close> (\<open>Some\<close> when it is an array).
\<close>

record parsed =
  parsed_title :: string
  parsed_rationale :: string
  parsed_labels :: "string list option"

datatype json = Throws string | JValue parsed

type_synonym json_parse = "string \<Rightarrow> json"

text \<open>\<open>String.prototype.substring(0, n)\<close>\<close>

definition substring0 :: "nat \<Rightarrow> string \<Rightarrow> string" where
  "substring0 n str = take n str"

text \<open>
  The Rationale built from a parsed reply; \<open>parseSuggestionResponse\<close> (server) and
  \<open>getAIRationale\<close> (browser) write the same three expressions.
\<close>

definition rationale_of_parsed :: "parsed \<Rightarrow> rationale" where
  "rationale_of_parsed p =
     \<lparr>title = (if parsed_title p \<noteq> [] then parsed_title p else ''Connected Ideas''),
      rationale = (if parsed_rationale p \<noteq> [] then parsed_rationale p
                   else ''These quotes share interesting connections.''),
      labels = (case parsed_labels p of Some ls \<Rightarrow> ls | None \<Rightarrow> [''adjacent''])\<rparr>"

definition parseSuggestionResponse :: "json_parse \<Rightarrow> string \<Rightarrow> rationale" where
  "parseSuggestionResponse JSON_parse response =
     (case JSON_parse response of
        JValue p \<Rightarrow> rationale_of_parsed p
      | Throws msg \<Rightarrow>
          \<lparr>title = ''Connected Ideas'',
           rationale = substring0 200 response @ ''...'',
           labels = [''adjacent'']\<rparr>)"

text \<open>
  The environment of one request on the server: the three readings of \<open>Date.now()\<close> (by
  \<open>checkRateLimit\<close>, \<open>getFromCache\<close> and \<open>setCache\<close>), \<open>process.env.OPENAI_API_KEY\<close>
  (empty when not set) and the reply to the \<open>fetch\<close>.
\<close>

record env =
  now_rate :: int
  now_get :: int
  now_set :: int
  api_key :: string
  ai_reply :: reply

text \<open>
  \<open>callOpenAI\<close>: the prompt and the options do not influence which branch is taken, so
  they are left out; the result is the content or the error thrown.
\<close>

definition callOpenAI :: "env \<Rightarrow> error + string" where
  "callOpenAI e =
     (if api_key e = [] then Inl (Error ''OpenAI API key not configured'')
      else (case ai_reply e of
              NetworkFailure msg \<Rightarrow> Inl (Error msg)
            | Response status b \<Rightarrow>
                if \<not> ok status then Inl (Error (''OpenAI API error: '' @ toString (int status)))
                else (case b of Unreadable msg \<Rightarrow> Inl (Error msg) | Content c \<Rightarrow> Inr c)))"

subsection \<open>Core suggestion logic: handleSuggestLogic\<close>

text \<open>The calls a flow makes, in the order it makes them.\<close>

datatype event = RateLimitCheck | CacheLookup | AICall | CacheWrite

record suggest_body =
  suggest_seed :: "quote option"
  suggest_suggestion :: "quote option"
  suggest_systemPrompt :: "string option"

text \<open>The part of \<open>handleSuggestLogic\<close> after the cache lookup found nothing usable.\<close>

definition suggest_miss ::
  "json_parse \<Rightarrow> env \<Rightarrow> string \<Rightarrow> server_state \<Rightarrow> (error + payload) \<times> server_state \<times> event list" where
  "suggest_miss JSON_parse e cacheKey st =
     (case callOpenAI e of
        Inl err \<Rightarrow> (Inl err, st, [RateLimitCheck, CacheLookup, AICall])
      | Inr aiResponse \<Rightarrow>
          (let parsedResponse = parseSuggestionResponse JSON_parse aiResponse;
               st1 = st\<lparr>responseCache := setCache (now_set e) cacheKey (Rationale parsedResponse) (responseCache st)\<rparr>
           in (Inr (Rationale parsedResponse), st1, [RateLimitCheck, CacheLookup, AICall, CacheWrite])))"

text \<open>
  \<open>handleSuggestLogic(body)\<close>: the response \<open>{suggestion: ...}\<close> or the error thrown, the
  state of the two maps afterwards, and the calls made.
\<close>

definition handleSuggestLogic ::
  "json_parse \<Rightarrow> env \<Rightarrow> suggest_body \<Rightarrow> server_state \<Rightarrow> (error + payload) \<times> server_state \<times> event list" where
  "handleSuggestLogic JSON_parse e b st =
     (case suggest_suggestion b of
        None \<Rightarrow> (Inl (Error ''Missing suggestion text''), st, [])
      | Some sug \<Rightarrow>
          if quote_text sug = [] then (Inl (Error ''Missing suggestion text''), st, [])
          else
            (let clientId = getClientId (suggest_systemPrompt b);
                 (allowed, rl) = checkRateLimit (now_rate e) clientId (rateLimitStore st);
                 st1 = st\<lparr>rateLimitStore := rl\<rparr>
             in if \<not> allowed then (Inl (Error ''Rate limit exceeded''), st1, [RateLimitCheck])
                else
                  (let cacheKey = getCacheKey ''suggest'' (quote_id sug) (suggest_systemPrompt b);
                       (cached, c) = getFromCache (now_get e) cacheKey (responseCache st1);
                       st2 = st1\<lparr>responseCache := c\<rparr>
                   in case cached of
                        None \<Rightarrow> suggest_miss JSON_parse e cacheKey st2
                      | Some d \<Rightarrow>
                          if truthy d then (Inr d, st2, [RateLimitCheck, CacheLookup])
                          else suggest_miss JSON_parse e cacheKey st2)))"

subsection \<open>Core route narration logic: handleRouteLogic\<close>

record route_body =
  route_path :: "quote list"
  route_systemPrompt :: "string option"

record route_response =
  response_path :: "string list"
  narration :: payload

definition route_miss ::
  "env \<Rightarrow> string \<Rightarrow> string \<Rightarrow> server_state \<Rightarrow> (error + route_response) \<times> server_state \<times> event list" where
  "route_miss e pathIds cacheKey st =
     (case callOpenAI e of
        Inl err \<Rightarrow> (Inl err, st, [RateLimitCheck, CacheLookup, AICall])
      | Inr aiResponse \<Rightarrow>
          (let st1 = st\<lparr>responseCache := setCache (now_set e) cacheKey (Narration aiResponse) (responseCache st)\<rparr>
           in (Inr \<lparr>response_path = split CHR ''-'' pathIds, narration = Narration aiResponse\<rparr>,
               st1, [RateLimitCheck, CacheLookup, AICall, CacheWrite])))"

definition handleRouteLogic ::
  "env \<Rightarrow> route_body \<Rightarrow> server_state \<Rightarrow> (error + route_response) \<times> server_state \<times> event list" where
  "handleRouteLogic e b st =
     (if length (route_path b) = 0 then (Inl (Error ''Missing or invalid path''), st, [])
      else
        (let clientId = getClientId (route_systemPrompt b);
             (allowed, rl) = checkRateLimit (now_rate e) clientId (rateLimitStore st);
             st1 = st\<lparr>rateLimitStore := rl\<rparr>
         in if \<not> allowed then (Inl (Error ''Rate limit exceeded''), st1, [RateLimitCheck])
            else
              (let pathIds = join ''-'' (map quote_id (route_path b));
                   cacheKey = getCacheKey ''route'' pathIds (route_systemPrompt b);
                   (cached, c) = getFromCache (now_get e) cacheKey (responseCache st1);
                   st2 = st1\<lparr>responseCache := c\<rparr>
               in case cached of
                    None \<Rightarrow> route_miss e pathIds cacheKey st2
                  | Some d \<Rightarrow>
                      if truthy d
                      then (Inr \<lparr>response_path = split CHR ''-'' pathIds, narration = d\<rparr>,
                            st2, [RateLimitCheck, CacheLookup])
                      else route_miss e pathIds cacheKey st2)))"

section \<open>Mapkeeper: the browser application (class Mapkeeper)\<close>

subsection \<open>State\<close>

record settings =
  openaiApiKey :: string
  settings_systemPrompt :: string

record current_suggestion =
  cs_quote :: quote
  cs_seed :: quote
  cs_rationale :: rationale

text \<open>
  The fields of the object that the claims are about. A JavaScript \<open>Set\<close> keeps its members
  in insertion order: \<open>recentPicks\<close> is the list of its members in that order.
\<close>

record app_state =
  quotes :: "quote list"
  neighbors :: "string \<rightharpoonup> string list"
  app_path :: "quote list"
  settings :: settings
  cache :: "string \<rightharpoonup> rationale"
  currentSuggestion :: "current_suggestion option"
  recentPicks :: "string list"

text \<open>\<open>Set.prototype.add\<close> and \<open>Set.prototype.delete\<close> on the members in insertion order.\<close>

definition set_add :: "'a \<Rightarrow> 'a list \<Rightarrow> 'a list" where
  "set_add x xs = (if x \<in> set xs then xs else xs @ [x])"

definition set_delete :: "'a \<Rightarrow> 'a list \<Rightarrow> 'a list" where
  "set_delete x xs = removeAll x xs"

subsection \<open>Tokens\<close>

text \<open>The code units below 256 that the regular expression \<open>\s\<close> matches.\<close>

definition is_space :: "char \<Rightarrow> bool" where
  "is_space c = ((of_char c :: nat) \<in> set [9, 10, 11, 12, 13, 32, 160])"

text \<open>\<open>toLowerCase\<close> on code units below 256: A to Z, and the Latin-1 capitals except the
  multiplication sign.\<close>

definition lower_char :: "char \<Rightarrow> char" where
  "lower_char c =
     (let n = (of_char c :: nat)
      in if (65 \<le> n \<and> n \<le> 90) \<or> (192 \<le> n \<and> n \<le> 222 \<and> n \<noteq> 215) then char_of (n + 32) else c)"

definition toLowerCase :: "string \<Rightarrow> string" where
  "toLowerCase str = map lower_char str"

text \<open>
  \<open>str.split(/\s+/)\<close>: the pieces between maximal runs of white space; a run at the start
  or at the end of the string leaves an empty piece there.
\<close>

function split_ws :: "string \<Rightarrow> string list" where
  "split_ws [] = [[]]"
| "split_ws (c # cs) =
     (if is_space c then [] # split_ws (dropWhile is_space cs)
      else (case split_ws cs of w # ws \<Rightarrow> (c # w) # ws | [] \<Rightarrow> [[c]]))"
  by pat_completeness auto
termination
  by (relation "measure length") (auto simp: length_dropWhile_le less_Suc_eq_le)

subsection \<open>Candidate generation: getCandidates\<close>

text \<open>
  \<open>candidates\<close> is a \<open>Set\<close> of quote objects, each an element of \<open>this.quotes\<close>: an object
  is identified by its position there. \<open>find\<close> returns the first quote with the id.
\<close>

definition add_neighbor :: "app_state \<Rightarrow> string \<Rightarrow> (nat \<times> quote) list \<Rightarrow> (nat \<times> quote) list" where
  "add_neighbor st neighborId candidates =
     (case find (\<lambda>iq. quote_id (snd iq) = neighborId) (enumerate 0 (quotes st)) of
        None \<Rightarrow> candidates
      | Some iq \<Rightarrow>
          if quote_id (snd iq) \<notin> set (recentPicks st) then set_add iq candidates else candidates)"

definition add_lexical ::
  "app_state \<Rightarrow> quote \<Rightarrow> string list \<Rightarrow> nat \<times> quote \<Rightarrow> (nat \<times> quote) list \<Rightarrow> (nat \<times> quote) list" where
  "add_lexical st seed seedWords iq candidates =
     (if quote_id (snd iq) = quote_id seed \<or> quote_id (snd iq) \<in> set (recentPicks st) then candidates
      else
        (let quoteWords = split_ws (toLowerCase (quote_text (snd iq)));
             commonWords = filter (\<lambda>word. length word > 3 \<and> word \<in> set quoteWords) seedWords
         in if length commonWords \<ge> 2 then set_add iq candidates else candidates))"

text \<open>
  \<open>this.neighbors\<close> is a plain object (\<open>{}\<close>, or the parsed \<open>neighbors.json\<close>): the map
  \<open>neighbors\<close> holds its own properties. A name that the object does not own, but that
  \<open>Object.prototype\<close> defines, reads as that inherited value, which is truthy and not an array.
\<close>

definition object_prototype_names :: "string list" where
  "object_prototype_names =
     [''constructor'', ''__defineGetter__'', ''__defineSetter__'', ''hasOwnProperty'',
      ''__lookupGetter__'', ''__lookupSetter__'', ''isPrototypeOf'', ''propertyIsEnumerable'',
      ''toString'', ''valueOf'', ''__proto__'', ''toLocaleString'']"

text \<open>
  \<open>const neighbors = this.neighbors[seed.id] || []\<close> followed by the call of the array method
  named \<open>callee\<close> on it (\<open>forEach\<close> in \<open>getCandidates\<close>, \<open>indexOf\<close> in \<open>rankCandidates\<close>): the
  array that the method works on, or the \<open>TypeError\<close> thrown because an inherited value has
  no such method.
\<close>

definition seed_neighbors :: "string \<Rightarrow> app_state \<Rightarrow> quote \<Rightarrow> error + string list" where
  "seed_neighbors callee st seed =
     (case neighbors st (quote_id seed) of
        Some ns \<Rightarrow> Inr ns
      | None \<Rightarrow>
          if quote_id seed \<in> set object_prototype_names
          then Inl (Error (''neighbors.'' @ callee @ '' is not a function''))
          else Inr [])"

definition getCandidates :: "app_state \<Rightarrow> quote \<Rightarrow> error + quote list" where
  "getCandidates st seed =
     (case seed_neighbors ''forEach'' st seed of
        Inl err \<Rightarrow> Inl err
      | Inr ns \<Rightarrow>
          (let c1 = fold (add_neighbor st) ns [];
               seedWords = split_ws (toLowerCase (quote_text seed));
               c2 = fold (add_lexical st seed seedWords) (enumerate 0 (quotes st)) c1
           in Inr (map snd c2)))"

subsection \<open>Ranking: rankCandidates\<close>

text \<open>\<open>Array.prototype.indexOf\<close>: the first position, or -1.\<close>

fun indexOf :: "'a list \<Rightarrow> 'a \<Rightarrow> int" where
  "indexOf [] x = - 1"
| "indexOf (y # ys) x =
     (if y = x then 0 else (let i = indexOf ys x in if i = - 1 then - 1 else i + 1))"

text \<open>
  A JavaScript number is an IEEE 754 double. A finite double is modelled by the rational number
  it denotes, and every arithmetic operation rounds its exact result to the nearest double,
  ties to the even mantissa (\<open>fl\<close>): the value is scaled by powers of two until its mantissa
  lies in \<open>[2^52, 2^53)\<close>, or until the least exponent \<open>-1074\<close> is reached (the subnormal
  numbers), and the mantissa is rounded to an integer. The numbers below stay far from the
  largest double, no divisor is zero (a list of tokens is never empty, and the graph term
  divides by the length of a list that holds the candidate), and the sign of a zero plays no
  role; so infinities, \<open>NaN\<close> and \<open>-0\<close> are left out.
\<close>

definition round_even :: "rat \<Rightarrow> int" where
  "round_even m =
     (let f = \<lfloor>m\<rfloor>; r = m - of_int f
      in if r < 1 / 2 then f else if 1 / 2 < r then f + 1 else if even f then f else f + 1)"

fun scale_up :: "nat \<Rightarrow> rat \<Rightarrow> int \<Rightarrow> rat \<times> int" where
  "scale_up 0 m e = (m, e)"
| "scale_up (Suc fuel) m e = (if m < 2 ^ 52 then scale_up fuel (2 * m) (e - 1) else (m, e))"

fun scale_down :: "nat \<Rightarrow> rat \<Rightarrow> int \<Rightarrow> rat \<times> int" where
  "scale_down 0 m e = (m, e)"
| "scale_down (Suc fuel) m e = (if 2 ^ 53 \<le> m then scale_down fuel (m / 2) (e + 1) else (m, e))"

definition fl_abs :: "rat \<Rightarrow> rat" where
  "fl_abs x =
     (let (m1, e1) = scale_up 1074 x 0;
          (m, e) = scale_down 971 m1 e1
      in of_int (round_even m) * 2 powi e)"

definition fl :: "rat \<Rightarrow> rat" where
  "fl x = (if x < 0 then - fl_abs (- x) else fl_abs x)"

text \<open>The operators \<open>+\<close>, \<open>-\<close>, \<open>*\<close> and \<open>/\<close> on numbers.\<close>

definition fadd :: "rat \<Rightarrow> rat \<Rightarrow> rat" where
  "fadd x y = fl (x + y)"

definition fsub :: "rat \<Rightarrow> rat \<Rightarrow> rat" where
  "fsub x y = fl (x - y)"

definition fmul :: "rat \<Rightarrow> rat \<Rightarrow> rat" where
  "fmul x y = fl (x * y)"

definition fdiv :: "rat \<Rightarrow> rat \<Rightarrow> rat" where
  "fdiv x y = fl (x / y)"

text \<open>
  The callback of \<open>candidates.map\<close>, from the neighbor list it has read: the score of one
  candidate. \<open>random\<close> is the value \<open>Math.random()\<close> returns for this candidate; a literal
  such as \<open>0.3\<close> denotes the double nearest to it; the length of an array is a double as it
  stands.
\<close>

definition score_of :: "string list \<Rightarrow> quote \<Rightarrow> quote \<Rightarrow> rat \<Rightarrow> rat" where
  "score_of ns seed candidate random =
     (let neighborIndex = indexOf ns (quote_id candidate);
          score1 = (if neighborIndex \<noteq> - 1
                    then fadd 0 (fmul (fdiv (fsub (of_nat (length ns)) (of_int neighborIndex))
                                            (of_nat (length ns)))
                                      (fl (5 / 10)))
                    else 0);
          seedWords = set (split_ws (toLowerCase (quote_text seed)));
          candidateWords = split_ws (toLowerCase (quote_text candidate));
          commonWords = filter (\<lambda>word. word \<in> seedWords) candidateWords;
          score2 = fadd score1
                     (fmul (fdiv (of_nat (length commonWords))
                                 (of_nat (max (card seedWords) (length candidateWords))))
                           (fl (3 / 10)));
          score3 = (if author candidate \<noteq> author seed then fadd score2 (fl (1 / 10)) else score2);
          score4 = (if book_title candidate \<noteq> book_title seed then fadd score3 (fl (1 / 10)) else score3)
      in fadd score4 (fmul random (fl (1 / 10))))"

text \<open>The whole callback: the score, or the error thrown when the neighbor list is read.\<close>

definition score :: "app_state \<Rightarrow> quote \<Rightarrow> quote \<Rightarrow> rat \<Rightarrow> error + rat" where
  "score st seed candidate random =
     (case seed_neighbors ''indexOf'' st seed of
        Inl err \<Rightarrow> Inl err
      | Inr ns \<Rightarrow> Inr (score_of ns seed candidate random))"

text \<open>The results of the callbacks in order, up to the first one that throws.\<close>

fun collect :: "(error + 'a) list \<Rightarrow> error + 'a list" where
  "collect [] = Inr []"
| "collect (x # xs) =
     (case x of
        Inl err \<Rightarrow> Inl err
      | Inr v \<Rightarrow> (case collect xs of Inl err \<Rightarrow> Inl err | Inr vs \<Rightarrow> Inr (v # vs)))"

text \<open>
  \<open>rankCandidates\<close>: \<open>random i\<close> is what \<open>Math.random()\<close> returns for the candidate at
  position \<open>i\<close>. \<open>Array.prototype.sort\<close> is stable; its comparator \<open>b.score - a.score\<close>
  is negative, zero or positive as the difference of the two doubles is (lemma
  \<open>fl_difference_sign\<close> below), so the sort is the stable sort by descending score.
\<close>

definition rankCandidates :: "app_state \<Rightarrow> (nat \<Rightarrow> rat) \<Rightarrow> quote list \<Rightarrow> quote \<Rightarrow> error + quote list" where
  "rankCandidates st random candidates seed =
     (case collect (map (\<lambda>ic. case score st seed (snd ic) (random (fst ic)) of
                               Inl err \<Rightarrow> Inl err
                             | Inr sc \<Rightarrow> Inr (snd ic, sc))
                        (enumerate 0 candidates)) of
        Inl err \<Rightarrow> Inl err
      | Inr scored \<Rightarrow> Inr (map fst (sort_key (\<lambda>item. - snd item) scored)))"

subsection \<open>The rationale of a suggestion: getAIRationale\<close>

fun startsWith :: "string \<Rightarrow> string \<Rightarrow> bool" where
  "startsWith str [] = True"
| "startsWith [] (p # ps) = False"
| "startsWith (c # cs) (p # ps) = (c = p \<and> startsWith cs ps)"

fun includes_str :: "string \<Rightarrow> string \<Rightarrow> bool" where
  "includes_str [] sub = (sub = [])"
| "includes_str (c # cs) sub = (startsWith (c # cs) sub \<or> includes_str cs sub)"

text \<open>The choice of the fallback text in the \<open>catch\<close> block, from the message of the error.\<close>

definition fallbackMessage :: "string \<Rightarrow> string" where
  "fallbackMessage message =
     (if includes_str message ''401''
      then ''Invalid API key. Please check your OpenAI API key in Settings.''
      else if includes_str message ''429''
      then ''Rate limit reached. Please try again in a moment.''
      else if includes_str message ''API request failed''
      then ''Unable to connect to OpenAI. Please check your internet connection and API key.''
      else ''This quote connects to your previous selection through shared themes and concepts.'')"

text \<open>The \<open>try\<close> block up to the parsed Rationale: the \<open>fetch\<close>, the status check, the parse.\<close>

definition request_rationale :: "json_parse \<Rightarrow> reply \<Rightarrow> error + rationale" where
  "request_rationale JSON_parse r =
     (case r of
        NetworkFailure msg \<Rightarrow> Inl (Error msg)
      | Response status b \<Rightarrow>
          if \<not> ok status then Inl (Error (''API request failed: '' @ toString (int status)))
          else (case b of
                  Unreadable msg \<Rightarrow> Inl (Error msg)
                | Content content \<Rightarrow>
                    (case JSON_parse content of
                       Throws msg \<Rightarrow> Inl (Error msg)
                     | JValue p \<Rightarrow> Inr (rationale_of_parsed p))))"

definition rationale_key :: "app_state \<Rightarrow> quote \<Rightarrow> string" where
  "rationale_key st suggestion =
     quote_id suggestion @ ''-'' @ hashString (settings_systemPrompt (settings st))"

text \<open>
  The degraded Rationale with the given text, as the function builds it when the key is
  missing and in its \<open>catch\<close> block.
\<close>

definition degraded :: "string \<Rightarrow> rationale" where
  "degraded message = \<lparr>title = ''Connected Ideas'', rationale = message, labels = [''adjacent'']\<rparr>"

text \<open>
  \<open>getAIRationale(seed, suggestion)\<close> is an \<open>async\<close> function. It runs without interruption
  up to its first \<open>await\<close>, the \<open>fetch\<close>: by then it has either returned, or it is waiting
  for the reply and holds the cache key it computed.
\<close>

datatype started = Returned rationale | Awaiting string

definition getAIRationale_start :: "quote \<Rightarrow> app_state \<Rightarrow> started" where
  "getAIRationale_start suggestion st =
     (let cacheKey = rationale_key st suggestion
      in case cache st cacheKey of
           Some cached \<Rightarrow> Returned cached
         | None \<Rightarrow>
             if openaiApiKey (settings st) = [] \<or> \<not> startsWith (openaiApiKey (settings st)) ''sk-''
             then Returned (degraded ''Add your OpenAI API key in Settings to get AI-powered connection explanations.'')
             else Awaiting cacheKey)"

text \<open>
  The rest of the function, run when the reply has arrived, on the state the object has by
  then: the value returned or the error thrown, the state afterwards and the calls made
  (\<open>AICall\<close> is the \<open>fetch\<close>). The \<open>catch\<close> block turns the error of the \<open>try\<close> block into a
  degraded Rationale. The function reads no clock.
\<close>

definition getAIRationale_resume ::
  "json_parse \<Rightarrow> reply \<Rightarrow> string \<Rightarrow> app_state \<Rightarrow> (error + rationale) \<times> app_state \<times> event list" where
  "getAIRationale_resume JSON_parse r cacheKey st =
     (case request_rationale JSON_parse r of
        Inr parsedRationale \<Rightarrow>
          (Inr parsedRationale, st\<lparr>cache := (cache st)(cacheKey \<mapsto> parsedRationale)\<rparr>, [AICall, CacheWrite])
      | Inl (Error message) \<Rightarrow> (Inr (degraded (fallbackMessage message)), st, [AICall]))"

text \<open>A call during which nothing else happens to the object.\<close>

definition getAIRationale ::
  "json_parse \<Rightarrow> reply \<Rightarrow> quote option \<Rightarrow> quote \<Rightarrow> app_state \<Rightarrow> (error + rationale) \<times> app_state \<times> event list" where
  "getAIRationale JSON_parse r seed suggestion st =
     (case getAIRationale_start suggestion st of
        Returned result \<Rightarrow> (Inr result, st, [CacheLookup])
      | Awaiting cacheKey \<Rightarrow>
          (let (result, st1, calls) = getAIRationale_resume JSON_parse r cacheKey st
           in (result, st1, CacheLookup # calls)))"

subsection \<open>Accepting a suggestion: acceptSuggestion\<close>

definition acceptSuggestion :: "app_state \<Rightarrow> app_state" where
  "acceptSuggestion st =
     (case currentSuggestion st of
        None \<Rightarrow> st
      | Some cur \<Rightarrow>
          (let quote = cs_quote cur;
               path1 = app_path st @ [quote];
               picks1 = set_add (quote_id quote) (recentPicks st);
               picks2 = (if length picks1 > 20
                         then (case picks1 of oldest # rest \<Rightarrow> set_delete oldest picks1 | [] \<Rightarrow> picks1)
                         else picks1)
           in st\<lparr>app_path := path1, recentPicks := picks2\<rparr>))"

subsection \<open>A session\<close>

text \<open>
  The object during a session, as far as the fields above go, together with the calls of
  \<open>getAIRationale\<close> that wait for their reply: each holds its cache key (oldest call first).
  Calls overlap, since \<open>getSuggestion\<close> is started by \<open>handleSendMessage\<close>,
  \<open>getNewSuggestion\<close> and the timer of \<open>acceptSuggestion\<close> without waiting for an earlier
  call to finish.
\<close>

record session =
  mapkeeper :: app_state
  pending :: "string list"

text \<open>
  What happens, one event of the event loop at a time: a call of \<open>getAIRationale\<close> starts;
  the reply to the pending call at a position arrives and that call finishes;
  \<open>getSuggestion\<close> stores the suggestion it shows; \<open>acceptSuggestion\<close>; an upload
  (\<open>handleFileUpload\<close> replaces the quotes and clears path and recent picks, unless the file
  holds no quote: then its error is caught and nothing changes); \<open>saveSettings\<close> or
  \<open>resetSettings\<close> replacing the settings.
\<close>

datatype action =
    Call "quote option" quote
  | Reply nat reply
  | Show current_suggestion
  | Accept
  | Upload "quote list"
  | SaveSettings settings

fun step :: "json_parse \<Rightarrow> action \<Rightarrow> session \<Rightarrow> session" where
  "step JSON_parse (Call seed suggestion) s =
     (case getAIRationale_start suggestion (mapkeeper s) of
        Returned result \<Rightarrow> s
      | Awaiting cacheKey \<Rightarrow> s\<lparr>pending := pending s @ [cacheKey]\<rparr>)"
| "step JSON_parse (Reply n r) s =
     (if n < length (pending s)
      then s\<lparr>mapkeeper := fst (snd (getAIRationale_resume JSON_parse r (pending s ! n) (mapkeeper s))),
             pending := take n (pending s) @ drop (Suc n) (pending s)\<rparr>
      else s)"
| "step JSON_parse (Show cur) s = s\<lparr>mapkeeper := (mapkeeper s)\<lparr>currentSuggestion := Some cur\<rparr>\<rparr>"
| "step JSON_parse Accept s = s\<lparr>mapkeeper := acceptSuggestion (mapkeeper s)\<rparr>"
| "step JSON_parse (Upload qs) s =
     (if length qs = 0 then s
      else s\<lparr>mapkeeper := (mapkeeper s)\<lparr>quotes := qs, app_path := [], recentPicks := []\<rparr>\<rparr>)"
| "step JSON_parse (SaveSettings v) s = s\<lparr>mapkeeper := (mapkeeper s)\<lparr>settings := v\<rparr>\<rparr>"

definition run :: "json_parse \<Rightarrow> action list \<Rightarrow> session \<Rightarrow> session" where
  "run JSON_parse acts s = fold (step JSON_parse) acts s"

section \<open>The score in the words of the specification\<close>

text \<open>
  The ranking formula as the specification words it, in the same arithmetic and summed in the
  same order as \<open>score\<close>: the lexical term is the size of the intersection of the two token
  sets over the larger of the two set sizes. It is compared with \<open>score\<close> below.
\<close>

definition spec_score :: "app_state \<Rightarrow> quote \<Rightarrow> quote \<Rightarrow> rat \<Rightarrow> error + rat" where
  "spec_score st seed candidate random =
     (case seed_neighbors ''indexOf'' st seed of
        Inl err \<Rightarrow> Inl err
      | Inr ns \<Rightarrow>
          (let i = indexOf ns (quote_id candidate);
               graph = (if i = - 1 then 0
                        else fmul (fdiv (fsub (of_nat (length ns)) (of_int i)) (of_nat (length ns))) (fl (5 / 10)));
               seedTokens = set (split_ws (toLowerCase (quote_text seed)));
               candidateTokens = set (split_ws (toLowerCase (quote_text candidate)));
               lexical = fmul (fdiv (of_nat (card (seedTokens \<inter> candidateTokens)))
                                    (of_nat (max (card seedTokens) (card candidateTokens))))
                              (fl (3 / 10));
               noveltyAuthor = (if author candidate \<noteq> author seed then fl (1 / 10) else 0);
               noveltyBook = (if book_title candidate \<noteq> book_title seed then fl (1 / 10) else 0)
           in Inr (fadd (fadd (fadd (fadd graph lexical) noveltyAuthor) noveltyBook)
                        (fmul random (fl (1 / 10))))))"

section \<open>Auxiliary definitions\<close>

text \<open>The number a string of decimal digits denotes; it shows that \<open>digits\<close> is injective.\<close>

definition decimal_value :: "string \<Rightarrow> nat" where
  "decimal_value str = fold (\<lambda>c v. 10 * v + (of_char c - 48)) str 0"

text \<open>The cache after a lookup: an expired entry of the key is gone, nothing else changes.\<close>

definition after_lookup :: "int \<Rightarrow> string \<Rightarrow> response_cache \<Rightarrow> response_cache" where
  "after_lookup now key c =
     (case c key of
        None \<Rightarrow> c
      | Some entry \<Rightarrow> if now > expires entry then c(key := None) else c)"

subsection \<open>Example data\<close>

definition example_quote :: "string \<Rightarrow> string \<Rightarrow> quote" where
  "example_quote i t = \<lparr>quote_id = i, quote_text = t, author = None, book_title = None\<rparr>"

definition example_settings :: settings where
  "example_settings = \<lparr>openaiApiKey = ''sk-test'', settings_systemPrompt = ''Be brief.''\<rparr>"

definition example_app :: "quote list \<Rightarrow> (string \<rightharpoonup> string list) \<Rightarrow> string list \<Rightarrow> app_state" where
  "example_app qs ns picks =
     \<lparr>quotes = qs, neighbors = ns, app_path = [], settings = example_settings, cache = Map.empty,
      currentSuggestion = None, recentPicks = picks\<rparr>"

definition example_current :: "string \<Rightarrow> current_suggestion" where
  "example_current i =
     \<lparr>cs_quote = example_quote i ''text'', cs_seed = example_quote ''seed'' ''text'',
      cs_rationale = \<lparr>title = ''t'', rationale = ''r'', labels = [''adjacent'']\<rparr>\<rparr>"

definition twenty_ids :: "string list" where
  "twenty_ids = [''a'', ''b'', ''c'', ''d'', ''e'', ''f'', ''g'', ''h'', ''i'', ''j'',
                 ''k'', ''l'', ''m'', ''n'', ''o'', ''p'', ''q'', ''r'', ''s'', ''t'']"

text \<open>
  \<open>JSON.parse\<close> on the texts of the examples: \<open>{}\<close> is an object without properties,
  \<open>{"title":"Echo"}\<close> an object with a title only, and the other texts that the examples
  use (\<open>not json\<close>) are not JSON.
\<close>

definition example_parse :: json_parse where
  "example_parse content =
     (if content = ''{}''
      then JValue \<lparr>parsed_title = [], parsed_rationale = [], parsed_labels = None\<rparr>
      else if content = ''{\"title\":\"Echo\"}''
      then JValue \<lparr>parsed_title = ''Echo'', parsed_rationale = [], parsed_labels = None\<rparr>
      else Throws ''Unexpected token'')"

definition default_rationale :: rationale where
  "default_rationale =
     \<lparr>title = ''Connected Ideas'', rationale = ''These quotes share interesting connections.'',
      labels = [''adjacent'']\<rparr>"

definition echo_rationale :: rationale where
  "echo_rationale =
     \<lparr>title = ''Echo'', rationale = ''These quotes share interesting connections.'',
      labels = [''adjacent'']\<rparr>"

definition example_rationale :: rationale where
  "example_rationale =
     \<lparr>title = ''Connected Ideas'', rationale = ''Both are about attention.'', labels = [''oblique'']\<rparr>"

definition example_session :: "action list" where
  "example_session =
     [Call None (example_quote ''q3'' ''third''),
      SaveSettings \<lparr>openaiApiKey = ''sk-test'', settings_systemPrompt = ''Another prompt''\<rparr>,
      Reply 0 (Response 200 (Content ''{\"title\":\"Echo\"}'')),
      Show (example_current ''q3''),
      Accept,
      Upload [],
      SaveSettings example_settings]"

text \<open>Two calls for the same suggestion start before either reply arrives.\<close>

definition overlapping_calls :: "action list" where
  "overlapping_calls =
     [Call None (example_quote ''q2'' ''second''),
      Call None (example_quote ''q2'' ''second''),
      Reply 0 (Response 200 (Content ''{}''))]"

definition example_start :: session where
  "example_start = \<lparr>mapkeeper = example_app [] Map.empty [], pending = []\<rparr>"

definition ex_seed :: quote where
  "ex_seed = example_quote ''q1'' ''Know thyself''"

definition ex_cand :: quote where
  "ex_cand = example_quote ''q2'' ''know what you know''"

definition example_env :: "reply \<Rightarrow> env" where
  "example_env r = \<lparr>now_rate = 5000, now_get = 5001, now_set = 5002, api_key = ''sk-test'', ai_reply = r\<rparr>"

definition example_body :: suggest_body where
  "example_body =
     \<lparr>suggest_seed = None, suggest_suggestion = Some (example_quote ''q2'' ''second''),
      suggest_systemPrompt = None\<rparr>"

definition example_key :: string where
  "example_key = getCacheKey ''suggest'' ''q2'' None"

definition example_cached :: response_cache where
  "example_cached = [example_key \<mapsto> \<lparr>data = Rationale example_rationale, expires = 9000\<rparr>]"

definition expired_cached :: response_cache where
  "expired_cached = [example_key \<mapsto> \<lparr>data = Rationale example_rationale, expires = 1000\<rparr>]"

definition example_route :: "string list \<Rightarrow> route_body" where
  "example_route ids = \<lparr>route_path = map (\<lambda>i. example_quote i ''text'') ids, route_systemPrompt = None\<rparr>"

text \<open>
  A seed with five listed neighbors, a candidate with the seed's words that is not listed,
  and a candidate of another author and book that is listed last.
\<close>

definition rank_seed :: quote where
  "rank_seed = example_quote ''s'' ''same words''"

definition rank_a :: quote where
  "rank_a = example_quote ''a'' ''Same words''"

definition rank_b :: quote where
  "rank_b = \<lparr>quote_id = ''b'', quote_text = ''other'', author = Some ''Anon'', book_title = Some ''Book''\<rparr>"

definition rank_app :: app_state where
  "rank_app = example_app [rank_seed, rank_a, rank_b] [''s'' \<mapsto> [''n1'', ''n2'', ''n3'', ''n4'', ''b'']] []"

definition rank_random :: "nat \<Rightarrow> rat" where
  "rank_random i = (if i = 0 then 1 / 2 ^ 52 else 0)"

section \<open>Properties\<close>

subsection \<open>Response cache\<close>

lemma getFromCache_expired:
  "c key = Some e \<Longrightarrow> now > expires e \<Longrightarrow> getFromCache now key c = (None, c(key := None))"
  by (simp add: getFromCache_def)

lemma getFromCache_fresh:
  "c key = Some e \<Longrightarrow> now \<le> expires e \<Longrightarrow> getFromCache now key c = (Some (data e), c)"
  by (simp add: getFromCache_def)

lemma getFromCache_absent:
  "c key = None \<Longrightarrow> getFromCache now key c = (None, c)"
  by (simp add: getFromCache_def)

text \<open>
  Claim C7. For every cache key, a \<open>get\<close> at any time strictly after the entry's expiry instant
  (for instance one millisecond after it) returns absent and removes the entry, while a
  \<open>get\<close> at or before the expiry instant returns the stored value; every \<open>set\<close> stores the
  value with a fresh time to live of one hour (3600000 ms) counted from the write, replacing
  what was stored under the key if anything was, so that a \<open>get\<close> up to one hour after the
  write returns it.
\<close>

theorem cache_expiry_and_fresh_ttl:
  assumes "c key = Some e" and "expires e < late" and "early \<le> expires e"
    and "t \<le> now + 3600000"
  shows "getFromCache late key c = (None, c(key := None))
       \<and> getFromCache early key c = (Some (data e), c)
       \<and> setCache now key' v c' = c'(key' \<mapsto> \<lparr>data = v, expires = now + 3600000\<rparr>)
       \<and> getFromCache t key' (setCache now key' v c') = (Some v, setCache now key' v c')"
proof -
  have ttl: "setCache now key' v c' = c'(key' \<mapsto> \<lparr>data = v, expires = now + 3600000\<rparr>)"
    by (simp add: setCache_def CACHE_TTL_def)
  have "getFromCache t key' (setCache now key' v c') = (Some v, setCache now key' v c')"
    using assms(4) by (simp add: ttl getFromCache_def)
  with assms ttl show ?thesis
    by (simp add: getFromCache_expired getFromCache_fresh)
qed

theorem cache_expiry_and_fresh_ttl_witness:
  "getFromCache 1001 ''k'' [''k'' \<mapsto> \<lparr>data = Narration ''old'', expires = 1000\<rparr>]
       = (None, [''k'' \<mapsto> \<lparr>data = Narration ''old'', expires = 1000\<rparr>](''k'' := None))
   \<and> getFromCache 1000 ''k'' [''k'' \<mapsto> \<lparr>data = Narration ''old'', expires = 1000\<rparr>]
       = (Some (data \<lparr>data = Narration ''old'', expires = 1000\<rparr>),
          [''k'' \<mapsto> \<lparr>data = Narration ''old'', expires = 1000\<rparr>])
   \<and> setCache 5000 ''k'' (Narration ''new'') [''k'' \<mapsto> \<lparr>data = Narration ''old'', expires = 1000\<rparr>]
       = [''k'' \<mapsto> \<lparr>data = Narration ''old'', expires = 1000\<rparr>,
          ''k'' \<mapsto> \<lparr>data = Narration ''new'', expires = 5000 + 3600000\<rparr>]
   \<and> getFromCache 3605000 ''k''
         (setCache 5000 ''k'' (Narration ''new'') [''k'' \<mapsto> \<lparr>data = Narration ''old'', expires = 1000\<rparr>])
       = (Some (Narration ''new''),
          setCache 5000 ''k'' (Narration ''new'') [''k'' \<mapsto> \<lparr>data = Narration ''old'', expires = 1000\<rparr>])"
  by (rule cache_expiry_and_fresh_ttl) simp_all

subsection \<open>Rate limiter\<close>

lemma recorded_clean_old:
  "recorded (clean_old ws s) cid = filter (\<lambda>t. t > ws) (recorded s cid)"
  by (auto simp: recorded_def clean_old_def Let_def split: option.splits)

lemma checkRateLimit_allowed:
  assumes "length (filter (\<lambda>t. t > now - RATE_LIMIT_WINDOW) (recorded s cid)) < RATE_LIMIT_MAX_REQUESTS"
  shows "fst (checkRateLimit now cid s)"
    and "recorded (snd (checkRateLimit now cid s)) cid
           = filter (\<lambda>t. t > now - RATE_LIMIT_WINDOW) (recorded s cid) @ [now]"
  using assms recorded_clean_old [of "now - RATE_LIMIT_WINDOW" s cid]
  by (auto simp: checkRateLimit_def Let_def recorded_def split: option.splits)

lemma checkRateLimit_denied:
  assumes "length (filter (\<lambda>t. t > now - RATE_LIMIT_WINDOW) (recorded s cid)) \<ge> RATE_LIMIT_MAX_REQUESTS"
  shows "\<not> fst (checkRateLimit now cid s)"
    and "recorded (snd (checkRateLimit now cid s)) cid
           = filter (\<lambda>t. t > now - RATE_LIMIT_WINDOW) (recorded s cid)"
  using assms recorded_clean_old [of "now - RATE_LIMIT_WINDOW" s cid]
  by (auto simp: checkRateLimit_def Let_def recorded_def split: option.splits)

lemma checkRateLimit_other:
  "other \<noteq> cid \<Longrightarrow> recorded (snd (checkRateLimit now cid s)) other
           = filter (\<lambda>t. t > now - RATE_LIMIT_WINDOW) (recorded s other)"
  using recorded_clean_old [of "now - RATE_LIMIT_WINDOW" s other]
  by (auto simp: checkRateLimit_def Let_def recorded_def split: option.splits)

lemma filter_window_all:
  assumes "\<forall>t\<in>set ts. now - t < RATE_LIMIT_WINDOW"
  shows "filter (\<lambda>t. t > now - RATE_LIMIT_WINDOW) ts = ts"
proof -
  have "\<forall>t\<in>set ts. t > now - RATE_LIMIT_WINDOW"
    using assms by auto
  then show ?thesis by simp
qed

lemma filter_window_none:
  assumes "\<forall>t\<in>set ts. t \<le> now - RATE_LIMIT_WINDOW"
  shows "filter (\<lambda>t. t > now - RATE_LIMIT_WINDOW) ts = []"
  using assms by (induction ts) auto

lemma check_all_within:
  assumes "\<forall>t\<in>set (recorded s cid) \<union> set nows. \<forall>t'\<in>set nows. t' - t < RATE_LIMIT_WINDOW"
  shows "fst (check_all nows cid s)
           = map (\<lambda>i. length (recorded s cid) + i < RATE_LIMIT_MAX_REQUESTS) [0..<length nows]
       \<and> recorded (snd (check_all nows cid s)) cid
           = recorded s cid @ take (RATE_LIMIT_MAX_REQUESTS - length (recorded s cid)) nows"
  using assms
proof (induction nows arbitrary: s)
  case Nil
  then show ?case by simp
next
  case (Cons now rest)
  let ?r = "recorded s cid"
  let ?s1 = "snd (checkRateLimit now cid s)"
  have valid: "filter (\<lambda>t. t > now - RATE_LIMIT_WINDOW) ?r = ?r"
    using Cons.prems by (intro filter_window_all) auto
  have head: "fst (checkRateLimit now cid s) = (length ?r < RATE_LIMIT_MAX_REQUESTS)"
    using checkRateLimit_allowed(1) [of now s cid] checkRateLimit_denied(1) [of now s cid] valid
    by (cases "length ?r < RATE_LIMIT_MAX_REQUESTS") auto
  have rec1: "recorded ?s1 cid = (if length ?r < RATE_LIMIT_MAX_REQUESTS then ?r @ [now] else ?r)"
    using checkRateLimit_allowed(2) [of now s cid] checkRateLimit_denied(2) [of now s cid] valid
    by (cases "length ?r < RATE_LIMIT_MAX_REQUESTS") auto
  have "\<forall>t\<in>set (recorded ?s1 cid) \<union> set rest. \<forall>t'\<in>set rest. t' - t < RATE_LIMIT_WINDOW"
    using Cons.prems rec1 by auto
  then have IH: "fst (check_all rest cid ?s1)
           = map (\<lambda>i. length (recorded ?s1 cid) + i < RATE_LIMIT_MAX_REQUESTS) [0..<length rest]
       \<and> recorded (snd (check_all rest cid ?s1)) cid
           = recorded ?s1 cid @ take (RATE_LIMIT_MAX_REQUESTS - length (recorded ?s1 cid)) rest"
    by (rule Cons.IH)
  have tail: "map (\<lambda>i. length (recorded ?s1 cid) + i < RATE_LIMIT_MAX_REQUESTS) [0..<length rest]
      = map (\<lambda>i. length ?r + Suc i < RATE_LIMIT_MAX_REQUESTS) [0..<length rest]"
    using rec1 by auto
  have "fst (check_all (now # rest) cid s)
      = fst (checkRateLimit now cid s) # fst (check_all rest cid ?s1)"
    by (simp add: split_beta Let_def)
  also have "\<dots> = (length ?r + 0 < RATE_LIMIT_MAX_REQUESTS)
       # map (\<lambda>i. length ?r + Suc i < RATE_LIMIT_MAX_REQUESTS) [0..<length rest]"
    using head IH tail by simp
  also have "\<dots> = map (\<lambda>i. length ?r + i < RATE_LIMIT_MAX_REQUESTS) [0..<length (now # rest)]"
    by (simp add: map_upt_Suc del: upt_Suc)
  finally have answers: "fst (check_all (now # rest) cid s)
      = map (\<lambda>i. length ?r + i < RATE_LIMIT_MAX_REQUESTS) [0..<length (now # rest)]" .
  have "recorded (snd (check_all (now # rest) cid s)) cid
      = recorded (snd (check_all rest cid ?s1)) cid"
    by (simp add: split_beta Let_def)
  also have "\<dots> = recorded ?s1 cid @ take (RATE_LIMIT_MAX_REQUESTS - length (recorded ?s1 cid)) rest"
    using IH by simp
  also have "\<dots> = ?r @ take (RATE_LIMIT_MAX_REQUESTS - length ?r) (now # rest)"
  proof (cases "length ?r < RATE_LIMIT_MAX_REQUESTS")
    case True
    then obtain k where k: "RATE_LIMIT_MAX_REQUESTS - length ?r = Suc k"
      by (metis Suc_diff_Suc)
    then have "RATE_LIMIT_MAX_REQUESTS - length (?r @ [now]) = k"
      by simp
    with True k rec1 show ?thesis by simp
  next
    case False
    with rec1 show ?thesis by simp
  qed
  finally show ?case using answers by simp
qed

lemma thirty_then_deny: "map (\<lambda>i. i < (30::nat)) [0..<31] = replicate 30 True @ [False]"
  by code_simp

text \<open>
  Claim C6. For one client identity: of 31 requests that all fall inside one 60-second
  window, the first 30 are allowed and the 31st is denied, and exactly the first 30 are
  recorded; a request that finds fewer than 30 timestamps of the last 60 seconds is allowed
  and its timestamp is recorded after them; a request that finds 30 or more is denied and
  records nothing; and once every recorded timestamp of the identity is at least 60 seconds
  old, the next request is allowed and the window holds that request only.
\<close>

theorem rate_limit_sliding_window:
  assumes "recorded s0 cid = []" and "length nows = 31"
    and "\<forall>t\<in>set nows. \<forall>t'\<in>set nows. t' - t < 60000"
    and "length (filter (\<lambda>t. now - 60000 < t) (recorded sa cid)) < 30"
    and "30 \<le> length (filter (\<lambda>t. now - 60000 < t) (recorded sd cid))"
    and "\<forall>t\<in>set (recorded sr cid). t \<le> now - 60000"
  shows "fst (check_all nows cid s0) = replicate 30 True @ [False]
       \<and> recorded (snd (check_all nows cid s0)) cid = take 30 nows
       \<and> fst (checkRateLimit now cid sa)
       \<and> recorded (snd (checkRateLimit now cid sa)) cid
           = filter (\<lambda>t. now - 60000 < t) (recorded sa cid) @ [now]
       \<and> \<not> fst (checkRateLimit now cid sd)
       \<and> recorded (snd (checkRateLimit now cid sd)) cid
           = filter (\<lambda>t. now - 60000 < t) (recorded sd cid)
       \<and> fst (checkRateLimit now cid sr)
       \<and> recorded (snd (checkRateLimit now cid sr)) cid = [now]"
proof -
  have run: "fst (check_all nows cid s0) = replicate 30 True @ [False]
       \<and> recorded (snd (check_all nows cid s0)) cid = take 30 nows"
    using check_all_within [of s0 cid nows] assms(1-3) thirty_then_deny
    by (simp add: RATE_LIMIT_MAX_REQUESTS_def RATE_LIMIT_WINDOW_def)
  have allowed: "fst (checkRateLimit now cid sa)
       \<and> recorded (snd (checkRateLimit now cid sa)) cid
           = filter (\<lambda>t. now - 60000 < t) (recorded sa cid) @ [now]"
    using checkRateLimit_allowed [of now sa cid] assms(4)
    by (simp add: RATE_LIMIT_MAX_REQUESTS_def RATE_LIMIT_WINDOW_def)
  have denied: "\<not> fst (checkRateLimit now cid sd)
       \<and> recorded (snd (checkRateLimit now cid sd)) cid
           = filter (\<lambda>t. now - 60000 < t) (recorded sd cid)"
    using checkRateLimit_denied [of now sd cid] assms(5)
    by (simp add: RATE_LIMIT_MAX_REQUESTS_def RATE_LIMIT_WINDOW_def)
  have none: "filter (\<lambda>t. t > now - RATE_LIMIT_WINDOW) (recorded sr cid) = []"
    using assms(6) by (intro filter_window_none) (simp add: RATE_LIMIT_WINDOW_def)
  have reset: "fst (checkRateLimit now cid sr)
       \<and> recorded (snd (checkRateLimit now cid sr)) cid = [now]"
    using checkRateLimit_allowed [of now sr cid] none
    by (simp add: RATE_LIMIT_MAX_REQUESTS_def)
  from run allowed denied reset show ?thesis by simp
qed

theorem rate_limit_sliding_window_witness:
  "fst (check_all (map int [1..<32]) ''c'' Map.empty) = replicate 30 True @ [False]
       \<and> recorded (snd (check_all (map int [1..<32]) ''c'' Map.empty)) ''c'' = take 30 (map int [1..<32])
       \<and> fst (checkRateLimit 70000 ''c'' [''c'' \<mapsto> [5000, 20000]])
       \<and> recorded (snd (checkRateLimit 70000 ''c'' [''c'' \<mapsto> [5000, 20000]])) ''c''
           = filter (\<lambda>t. 70000 - 60000 < t) (recorded [''c'' \<mapsto> [5000, 20000]] ''c'') @ [70000]
       \<and> \<not> fst (checkRateLimit 70000 ''c'' [''c'' \<mapsto> replicate 30 20000])
       \<and> recorded (snd (checkRateLimit 70000 ''c'' [''c'' \<mapsto> replicate 30 20000])) ''c''
           = filter (\<lambda>t. 70000 - 60000 < t) (recorded [''c'' \<mapsto> replicate 30 20000] ''c'')
       \<and> fst (checkRateLimit 70000 ''c'' [''c'' \<mapsto> replicate 30 10000])
       \<and> recorded (snd (checkRateLimit 70000 ''c'' [''c'' \<mapsto> replicate 30 10000])) ''c'' = [70000]"
  by (rule rate_limit_sliding_window) (auto simp: recorded_def)

subsection \<open>The order of the suggestion flow on the server\<close>

lemma checkRateLimit_denied_eq:
  assumes "30 \<le> length (filter (\<lambda>t. now - 60000 < t) (recorded s cid))"
  shows "checkRateLimit now cid s = (False, clean_old (now - 60000) s)"
  using assms recorded_clean_old [of "now - 60000" s cid]
  by (simp add: checkRateLimit_def Let_def recorded_def RATE_LIMIT_WINDOW_def RATE_LIMIT_MAX_REQUESTS_def
      split: option.splits)

lemma checkRateLimit_allowed_eq:
  assumes "length (filter (\<lambda>t. now - 60000 < t) (recorded s cid)) < 30"
  shows "checkRateLimit now cid s
           = (True, (clean_old (now - 60000) s)(cid \<mapsto> filter (\<lambda>t. now - 60000 < t) (recorded s cid) @ [now]))"
  using assms recorded_clean_old [of "now - 60000" s cid]
  by (auto simp add: checkRateLimit_def Let_def recorded_def RATE_LIMIT_WINDOW_def RATE_LIMIT_MAX_REQUESTS_def
      split: option.splits)

lemma handleSuggestLogic_denied:
  assumes "suggest_suggestion b = Some sug" and "quote_text sug \<noteq> []"
    and "30 \<le> length (filter (\<lambda>t. now_rate e - 60000 < t)
                 (recorded (rateLimitStore st) (getClientId (suggest_systemPrompt b))))"
  shows "handleSuggestLogic JP e b st
           = (Inl (Error ''Rate limit exceeded''),
              st\<lparr>rateLimitStore := clean_old (now_rate e - 60000) (rateLimitStore st)\<rparr>,
              [RateLimitCheck])"
  using assms(1,2) checkRateLimit_denied_eq [OF assms(3)]
  by (simp add: handleSuggestLogic_def)

lemma handleSuggestLogic_hit:
  assumes "suggest_suggestion b = Some sug" and "quote_text sug \<noteq> []"
    and "length (filter (\<lambda>t. now_rate e - 60000 < t)
                 (recorded (rateLimitStore st) (getClientId (suggest_systemPrompt b)))) < 30"
    and "responseCache st (getCacheKey ''suggest'' (quote_id sug) (suggest_systemPrompt b)) = Some entry"
    and "now_get e \<le> expires entry" and "truthy (data entry)"
  shows "handleSuggestLogic JP e b st
           = (Inr (data entry),
              st\<lparr>rateLimitStore := (clean_old (now_rate e - 60000) (rateLimitStore st))
                   (getClientId (suggest_systemPrompt b) \<mapsto>
                      filter (\<lambda>t. now_rate e - 60000 < t)
                        (recorded (rateLimitStore st) (getClientId (suggest_systemPrompt b))) @ [now_rate e])\<rparr>,
              [RateLimitCheck, CacheLookup])"
  using assms(1,2,5,6) checkRateLimit_allowed_eq [OF assms(3)]
    getFromCache_fresh [of "responseCache st" "getCacheKey ''suggest'' (quote_id sug) (suggest_systemPrompt b)"
      entry "now_get e", OF assms(4,5)]
  by (simp add: handleSuggestLogic_def)

lemma handleSuggestLogic_miss:
  assumes "suggest_suggestion b = Some sug" and "quote_text sug \<noteq> []"
    and "length (filter (\<lambda>t. now_rate e - 60000 < t)
                 (recorded (rateLimitStore st) (getClientId (suggest_systemPrompt b)))) < 30"
    and "responseCache st (getCacheKey ''suggest'' (quote_id sug) (suggest_systemPrompt b)) = None"
  shows "handleSuggestLogic JP e b st
           = suggest_miss JP e (getCacheKey ''suggest'' (quote_id sug) (suggest_systemPrompt b))
              (st\<lparr>rateLimitStore := (clean_old (now_rate e - 60000) (rateLimitStore st))
                   (getClientId (suggest_systemPrompt b) \<mapsto>
                      filter (\<lambda>t. now_rate e - 60000 < t)
                        (recorded (rateLimitStore st) (getClientId (suggest_systemPrompt b))) @ [now_rate e])\<rparr>)"
  using assms(1,2) checkRateLimit_allowed_eq [OF assms(3)]
    getFromCache_absent [of "responseCache st" "getCacheKey ''suggest'' (quote_id sug) (suggest_systemPrompt b)"
      "now_get e", OF assms(4)]
  by (simp add: handleSuggestLogic_def)

lemma suggest_miss_trace:
  "snd (snd (suggest_miss JP e k st)) = [RateLimitCheck, CacheLookup, AICall]
   \<or> snd (snd (suggest_miss JP e k st)) = [RateLimitCheck, CacheLookup, AICall, CacheWrite]"
  by (simp add: suggest_miss_def Let_def split: sum.splits)

lemma handleSuggestLogic_trace:
  "snd (snd (handleSuggestLogic JP e b st))
     \<in> set [[], [RateLimitCheck], [RateLimitCheck, CacheLookup],
             [RateLimitCheck, CacheLookup, AICall],
             [RateLimitCheck, CacheLookup, AICall, CacheWrite]]"
proof -
  have miss: "\<forall>k s. snd (snd (suggest_miss JP e k s)) = [RateLimitCheck, CacheLookup, AICall]
      \<or> snd (snd (suggest_miss JP e k s)) = [RateLimitCheck, CacheLookup, AICall, CacheWrite]"
    using suggest_miss_trace by blast
  show ?thesis
    using miss
    by (auto simp: handleSuggestLogic_def Let_def split_beta split: option.splits)
qed

text \<open>
  Against claim C1 as stated: a request whose cache key holds an unexpired Rationale is
  answered from the cache, but the rate limiter is consulted first and records the request.
\<close>

theorem cached_suggestion_is_rate_limited:
  "recorded Map.empty (getClientId None) = []
   \<and> fst (handleSuggestLogic example_parse (example_env (NetworkFailure ''offline'')) example_body
        \<lparr>rateLimitStore = Map.empty, responseCache = example_cached\<rparr>)
       = Inr (Rationale example_rationale)
   \<and> snd (snd (handleSuggestLogic example_parse (example_env (NetworkFailure ''offline'')) example_body
        \<lparr>rateLimitStore = Map.empty, responseCache = example_cached\<rparr>))
       = [RateLimitCheck, CacheLookup]
   \<and> recorded (rateLimitStore (fst (snd (handleSuggestLogic example_parse
        (example_env (NetworkFailure ''offline'')) example_body
        \<lparr>rateLimitStore = Map.empty, responseCache = example_cached\<rparr>)))) (getClientId None)
       = [5000]"
  by (simp add: handleSuggestLogic_def checkRateLimit_def clean_old_def getFromCache_def recorded_def
      example_env_def example_body_def example_key_def example_cached_def example_quote_def
      RATE_LIMIT_MAX_REQUESTS_def RATE_LIMIT_WINDOW_def)

text \<open>
  Claim C1, amended. In every suggestion flow of \<open>handleSuggestLogic\<close> the rate-limit check
  comes first, then the cache lookup, then the AI call, then the cache write (the calls made
  are an initial part of that sequence). For a request with a suggestion text that the rate
  limiter allows and whose cache key holds an unexpired, truthy entry, the cached value is
  returned without any AI call and the cache is left as it was, and the timestamp of the
  request is recorded in the rate window.
\<close>

theorem suggestion_flow_order:
  assumes "suggest_suggestion b = Some sug" and "quote_text sug \<noteq> []"
    and "length (filter (\<lambda>t. now_rate e - 60000 < t)
                 (recorded (rateLimitStore st) (getClientId (suggest_systemPrompt b)))) < 30"
    and "responseCache st (getCacheKey ''suggest'' (quote_id sug) (suggest_systemPrompt b)) = Some entry"
    and "now_get e \<le> expires entry" and "truthy (data entry)"
  shows "fst (handleSuggestLogic JSON_parse e b st) = Inr (data entry)
       \<and> snd (snd (handleSuggestLogic JSON_parse e b st)) = [RateLimitCheck, CacheLookup]
       \<and> responseCache (fst (snd (handleSuggestLogic JSON_parse e b st))) = responseCache st
       \<and> recorded (rateLimitStore (fst (snd (handleSuggestLogic JSON_parse e b st))))
             (getClientId (suggest_systemPrompt b))
           = filter (\<lambda>t. now_rate e - 60000 < t)
               (recorded (rateLimitStore st) (getClientId (suggest_systemPrompt b))) @ [now_rate e]
       \<and> snd (snd (handleSuggestLogic JSON_parse' e' b' st'))
           \<in> set [[], [RateLimitCheck], [RateLimitCheck, CacheLookup],
                   [RateLimitCheck, CacheLookup, AICall],
                   [RateLimitCheck, CacheLookup, AICall, CacheWrite]]"
  using handleSuggestLogic_hit [OF assms, of JSON_parse] handleSuggestLogic_trace [of JSON_parse' e' b' st']
  by (simp add: recorded_def)

theorem suggestion_flow_order_witness:
  "fst (handleSuggestLogic example_parse (example_env (NetworkFailure ''offline'')) example_body
        \<lparr>rateLimitStore = [getClientId None \<mapsto> [-60000, 4000]], responseCache = example_cached\<rparr>)
       = Inr (Rationale example_rationale)
   \<and> recorded (rateLimitStore (fst (snd (handleSuggestLogic example_parse
        (example_env (NetworkFailure ''offline'')) example_body
        \<lparr>rateLimitStore = [getClientId None \<mapsto> [-60000, 4000]], responseCache = example_cached\<rparr>))))
        (getClientId None)
       = [4000, 5000]"
proof -
  let ?st = "\<lparr>rateLimitStore = [getClientId None \<mapsto> [-60000, 4000]], responseCache = example_cached\<rparr>"
  let ?e = "example_env (NetworkFailure ''offline'')"
  have 1: "suggest_suggestion example_body = Some (example_quote ''q2'' ''second'')"
    by (simp add: example_body_def)
  have 2: "quote_text (example_quote ''q2'' ''second'') \<noteq> []"
    by (simp add: example_quote_def)
  have 3: "length (filter (\<lambda>t. now_rate ?e - 60000 < t)
                 (recorded (rateLimitStore ?st) (getClientId (suggest_systemPrompt example_body)))) < 30"
    by (simp add: example_env_def example_body_def recorded_def)
  have 4: "responseCache ?st (getCacheKey ''suggest'' (quote_id (example_quote ''q2'' ''second''))
             (suggest_systemPrompt example_body))
           = Some \<lparr>data = Rationale example_rationale, expires = 9000\<rparr>"
    by (simp add: example_cached_def example_key_def example_body_def example_quote_def)
  have 5: "now_get ?e \<le> expires \<lparr>data = Rationale example_rationale, expires = 9000\<rparr>"
    by (simp add: example_env_def)
  have 6: "truthy (data \<lparr>data = Rationale example_rationale, expires = 9000\<rparr>)"
    by simp
  from suggestion_flow_order [OF 1 2 3 4 5 6, of example_parse] show ?thesis
    by (simp add: example_env_def example_body_def recorded_def)
qed

subsection \<open>Decimal digits and the fallback text of a status\<close>

lemma includes_str_skip:
  assumes "c \<notin> set pre"
  shows "includes_str (pre @ str) (c # sub) = includes_str str (c # sub)"
  using assms by (induction pre) auto

lemma digit_table: "''0123456789'' = map (\<lambda>d. char_of (48 + d :: nat)) [0..<10]"
  by code_simp

lemma digit_char_code:
  assumes "d < 10"
  shows "digit_char d = char_of (48 + d)"
proof -
  have "map (\<lambda>d. char_of (48 + d :: nat)) [0..<10] ! d = char_of (48 + ([0..<10] ! d))"
    using assms by (intro nth_map) simp
  also have "[0..<10] ! d = d"
    using assms by (simp only: nth_upt add_0)
  finally show ?thesis
    by (simp only: digit_char_def digit_table)
qed

lemma of_char_digit_char:
  assumes "d < 10"
  shows "(of_char (digit_char d) :: nat) = 48 + d"
  using assms by (simp add: digit_char_code)

lemma digits_three:
  assumes "100 \<le> n" and "n < 1000"
  shows "digits n = [digit_char (n div 100), digit_char (n div 10 mod 10), digit_char (n mod 10)]"
proof -
  have a: "\<not> n < 10"
    using assms(1) by simp
  have "100 div 10 \<le> n div 10"
    using assms(1) by (rule div_le_mono)
  then have b: "\<not> n div 10 < 10"
    by simp
  have d: "n div 10 div 10 = n div 100"
    by (simp add: div_mult2_eq)
  have "n div 100 < 10"
    using assms(2) by (intro less_mult_imp_div_less) simp
  then have "digits (n div 100) = [digit_char (n div 100)]"
    by (simp add: digits.simps [of "n div 100"])
  moreover have "digits (n div 10) = digits (n div 100) @ [digit_char (n div 10 mod 10)]"
    using b d by (simp add: digits.simps [of "n div 10"])
  moreover have "digits n = digits (n div 10) @ [digit_char (n mod 10)]"
    using a by (simp add: digits.simps [of n])
  ultimately show ?thesis by simp
qed

lemma decimal_value_digits: "decimal_value (digits n) = n"
proof (induction n rule: digits.induct)
  case (1 n)
  show ?case
  proof (cases "n < 10")
    case True
    then show ?thesis
      by (simp add: digits.simps [of n] decimal_value_def of_char_digit_char)
  next
    case False
    then have "decimal_value (digits (n div 10)) = n div 10"
      by (rule "1.IH")
    moreover have "n mod 10 < 10" by simp
    ultimately show ?thesis
      using False by (simp add: digits.simps [of n] decimal_value_def of_char_digit_char)
  qed
qed

lemma digits_eq_iff: "(digits n = digits m) = (n = m)"
  by (metis decimal_value_digits)

lemma includes_three: "includes_str [a, b, c] [x, y, z] = (a = x \<and> b = y \<and> c = z)"
  by auto

lemma status_message_includes:
  assumes "100 \<le> status" and "status < 1000" and "100 \<le> code" and "code < 1000"
    and "hd (digits code) \<notin> set ''API request failed: ''"
  shows "includes_str (''API request failed: '' @ toString (int status)) (digits code) = (status = code)"
proof -
  obtain x y z where code: "digits code = [x, y, z]"
    using digits_three [OF assms(3,4)] by simp
  with assms(5) have x: "x \<notin> set ''API request failed: ''" by simp
  have "toString (int status) = digits status"
    by (simp add: toString_def)
  then have "includes_str (''API request failed: '' @ toString (int status)) (digits code)
      = includes_str (digits status) [x, y, z]"
    by (simp only: code includes_str_skip [OF x])
  also have "\<dots> = (digits status = [x, y, z])"
    using assms(1,2) by (simp add: digits_three includes_three)
  also have "\<dots> = (status = code)"
    by (simp only: code [symmetric] digits_eq_iff)
  finally show ?thesis .
qed

lemma digits_401: "digits 401 = ''401''"
  by (simp add: digits.simps digit_char_def)

lemma digits_429: "digits 429 = ''429''"
  by (simp add: digits.simps digit_char_def)

lemma status_includes_401:
  assumes "100 \<le> status" and "status < 1000"
  shows "includes_str (''API request failed: '' @ toString (int status)) ''401'' = (status = 401)"
  using status_message_includes [OF assms, of 401] by (simp add: digits_401)

lemma status_includes_429:
  assumes "100 \<le> status" and "status < 1000"
  shows "includes_str (''API request failed: '' @ toString (int status)) ''429'' = (status = 429)"
  using status_message_includes [OF assms, of 429] by (simp add: digits_429)

lemma status_includes_prefix:
  "includes_str (''API request failed: '' @ str) ''API request failed''"
  by simp

lemma status_table:
  assumes "100 \<le> status" and "status < 1000"
  shows "fallbackMessage (''API request failed: '' @ toString (int status))
          = (if status = 401 then ''Invalid API key. Please check your OpenAI API key in Settings.''
             else if status = 429 then ''Rate limit reached. Please try again in a moment.''
             else ''Unable to connect to OpenAI. Please check your internet connection and API key.'')"
  unfolding fallbackMessage_def
  by (simp only: status_includes_401 [OF assms] status_includes_429 [OF assms] status_includes_prefix if_True)

lemma fallback_401:
  "fallbackMessage (''API request failed: '' @ toString (int 401))
     = ''Invalid API key. Please check your OpenAI API key in Settings.''"
proof -
  have "fallbackMessage (''API request failed: '' @ toString (int 401))
     = (if (401::nat) = 401 then ''Invalid API key. Please check your OpenAI API key in Settings.''
             else if (401::nat) = 429 then ''Rate limit reached. Please try again in a moment.''
             else ''Unable to connect to OpenAI. Please check your internet connection and API key.'')"
    by (rule status_table) simp_all
  then show ?thesis by simp
qed

lemma fallback_429:
  "fallbackMessage (''API request failed: '' @ toString (int 429))
     = ''Rate limit reached. Please try again in a moment.''"
proof -
  have "fallbackMessage (''API request failed: '' @ toString (int 429))
     = (if (429::nat) = 401 then ''Invalid API key. Please check your OpenAI API key in Settings.''
             else if (429::nat) = 429 then ''Rate limit reached. Please try again in a moment.''
             else ''Unable to connect to OpenAI. Please check your internet connection and API key.'')"
    by (rule status_table) simp_all
  then show ?thesis by simp
qed

subsection \<open>What a denied or failed request returns\<close>

lemma getAIRationale_failure:
  assumes "cache ast (rationale_key ast sug) = None"
    and "openaiApiKey (settings ast) \<noteq> []" and "startsWith (openaiApiKey (settings ast)) ''sk-''"
    and "request_rationale JP r = Inl (Error msg)"
  shows "getAIRationale JP r seed sug ast
           = (Inr (degraded (fallbackMessage msg)), ast, [CacheLookup, AICall])"
  using assms by (simp add: getAIRationale_def getAIRationale_start_def getAIRationale_resume_def)

lemma getAIRationale_resume_failure:
  assumes "request_rationale JP r = Inl (Error msg)"
  shows "getAIRationale_resume JP r k st = (Inr (degraded (fallbackMessage msg)), st, [AICall])"
  using assms by (simp add: getAIRationale_resume_def)

lemma request_rationale_status:
  assumes "\<not> ok status"
  shows "request_rationale JP (Response status bd)
           = Inl (Error (''API request failed: '' @ toString (int status)))"
  using assms by (simp add: request_rationale_def)

lemma getAIRationale_resume_value:
  "fst (getAIRationale_resume JP r k st)
     = Inr (case r of
              NetworkFailure msg \<Rightarrow> degraded (fallbackMessage msg)
            | Response status bd \<Rightarrow>
                if ok status
                then (case bd of
                        Unreadable msg \<Rightarrow> degraded (fallbackMessage msg)
                      | Content content \<Rightarrow>
                          (case JP content of
                             Throws msg \<Rightarrow> degraded (fallbackMessage msg)
                           | JValue p \<Rightarrow> rationale_of_parsed p))
                else degraded (fallbackMessage (''API request failed: '' @ toString (int status))))"
  by (simp add: getAIRationale_resume_def request_rationale_def
      split: reply.splits body.splits json.splits)

lemma getAIRationale_value:
  "fst (getAIRationale JP r seed sug ast)
     = Inr (case cache ast (rationale_key ast sug) of
              Some cached \<Rightarrow> cached
            | None \<Rightarrow>
                if openaiApiKey (settings ast) = [] \<or> \<not> startsWith (openaiApiKey (settings ast)) ''sk-''
                then degraded ''Add your OpenAI API key in Settings to get AI-powered connection explanations.''
                else (case r of
                        NetworkFailure msg \<Rightarrow> degraded (fallbackMessage msg)
                      | Response status bd \<Rightarrow>
                          if ok status
                          then (case bd of
                                  Unreadable msg \<Rightarrow> degraded (fallbackMessage msg)
                                | Content content \<Rightarrow>
                                    (case JP content of
                                       Throws msg \<Rightarrow> degraded (fallbackMessage msg)
                                     | JValue p \<Rightarrow> rationale_of_parsed p))
                          else degraded (fallbackMessage (''API request failed: '' @ toString (int status)))))"
proof (cases "getAIRationale_start sug ast")
  case (Returned result)
  then show ?thesis
    by (auto simp: getAIRationale_def getAIRationale_start_def Let_def split: option.splits if_splits)
next
  case (Awaiting k)
  then have miss: "cache ast (rationale_key ast sug) = None"
    and key: "\<not> (openaiApiKey (settings ast) = [] \<or> \<not> startsWith (openaiApiKey (settings ast)) ''sk-'')"
    by (auto simp: getAIRationale_start_def Let_def split: option.splits if_splits)
  have "fst (getAIRationale JP r seed sug ast) = fst (getAIRationale_resume JP r k ast)"
    using Awaiting by (simp add: getAIRationale_def split_beta)
  then show ?thesis
    by (simp only: getAIRationale_resume_value miss key option.case if_False)
qed

text \<open>
  Against claim C2 as stated: when the rate limiter denies the client identity,
  \<open>handleSuggestLogic\<close> throws \<open>Rate limit exceeded\<close>; no Rationale is returned.
\<close>

theorem rate_limit_exceeded_raises:
  "recorded [getClientId None \<mapsto> replicate 30 4000] (getClientId None) = replicate 30 4000
   \<and> handleSuggestLogic example_parse (example_env (Response 200 (Content ''{}''))) example_body
        \<lparr>rateLimitStore = [getClientId None \<mapsto> replicate 30 4000], responseCache = Map.empty\<rparr>
       = (Inl (Error ''Rate limit exceeded''),
          \<lparr>rateLimitStore = clean_old (- 55000) [getClientId None \<mapsto> replicate 30 4000],
           responseCache = Map.empty\<rparr>,
          [RateLimitCheck])"
  by (simp add: handleSuggestLogic_def checkRateLimit_def clean_old_def recorded_def
      example_env_def example_body_def example_quote_def
      RATE_LIMIT_MAX_REQUESTS_def RATE_LIMIT_WINDOW_def)

text \<open>
  Claim C2, amended. When its rate limiter denies the client identity, the server-side
  \<open>handleSuggestLogic\<close> raises the error \<open>Rate limit exceeded\<close> to its caller, after the
  rate-limit check alone. The browser-side \<open>getAIRationale\<close> has no rate limiter and never
  raises; it returns: the cached Rationale when the cache holds the key; else, when the API
  key is missing or does not start with \<open>sk-\<close>, the degraded Rationale (titled
  \<open>Connected Ideas\<close>, labelled \<open>["adjacent"]\<close>) that asks for a key; else the Rationale
  built from the properties of the parsed content when the reply has a 2xx status, a readable
  body and a content that parses; else the degraded Rationale whose text the \<open>catch\<close> block
  chooses from the message of the error. When the upstream answers 429 that text is the
  try-again text.
\<close>

theorem rate_limit_outcomes:
  assumes "suggest_suggestion b = Some sug" and "quote_text sug \<noteq> []"
    and "30 \<le> length (filter (\<lambda>t. now_rate e - 60000 < t)
                 (recorded (rateLimitStore st) (getClientId (suggest_systemPrompt b))))"
    and "cache ast (rationale_key ast bsug) = None"
    and "openaiApiKey (settings ast) \<noteq> []" and "startsWith (openaiApiKey (settings ast)) ''sk-''"
  shows "handleSuggestLogic JSON_parse e b st
           = (Inl (Error ''Rate limit exceeded''),
              st\<lparr>rateLimitStore := clean_old (now_rate e - 60000) (rateLimitStore st)\<rparr>,
              [RateLimitCheck])
       \<and> getAIRationale JSON_parse (Response 429 bd) seed bsug ast
           = (Inr (degraded ''Rate limit reached. Please try again in a moment.''), ast,
              [CacheLookup, AICall])
       \<and> fst (getAIRationale JSON_parse r seed' sug' ast')
           = Inr (case cache ast' (rationale_key ast' sug') of
                    Some cached \<Rightarrow> cached
                  | None \<Rightarrow>
                      if openaiApiKey (settings ast') = [] \<or> \<not> startsWith (openaiApiKey (settings ast')) ''sk-''
                      then degraded ''Add your OpenAI API key in Settings to get AI-powered connection explanations.''
                      else (case r of
                              NetworkFailure msg \<Rightarrow> degraded (fallbackMessage msg)
                            | Response status body \<Rightarrow>
                                if ok status
                                then (case body of
                                        Unreadable msg \<Rightarrow> degraded (fallbackMessage msg)
                                      | Content content \<Rightarrow>
                                          (case JSON_parse content of
                                             Throws msg \<Rightarrow> degraded (fallbackMessage msg)
                                           | JValue p \<Rightarrow> rationale_of_parsed p))
                                else degraded (fallbackMessage (''API request failed: '' @ toString (int status)))))
       \<and> title (degraded text) = ''Connected Ideas'' \<and> rationale (degraded text) = text
       \<and> labels (degraded text) = [''adjacent'']"
proof -
  have "request_rationale JSON_parse (Response 429 bd)
          = Inl (Error (''API request failed: '' @ toString (int 429)))"
    by (rule request_rationale_status) (simp add: ok_def)
  from getAIRationale_failure [OF assms(4-6) this, of seed]
  have "getAIRationale JSON_parse (Response 429 bd) seed bsug ast
           = (Inr (degraded ''Rate limit reached. Please try again in a moment.''), ast,
              [CacheLookup, AICall])"
    by (simp only: fallback_429)
  moreover note handleSuggestLogic_denied [OF assms(1-3), of JSON_parse]
  moreover note getAIRationale_value [of JSON_parse r seed' sug' ast']
  moreover have "title (degraded text) = ''Connected Ideas'' \<and> rationale (degraded text) = text
       \<and> labels (degraded text) = [''adjacent'']"
    by (simp add: degraded_def)
  ultimately show ?thesis
    by (simp only: simp_thms)
qed

theorem rate_limit_outcomes_witness:
  "fst (handleSuggestLogic example_parse (example_env (Response 200 (Content ''{}''))) example_body
        \<lparr>rateLimitStore = [getClientId None \<mapsto> replicate 30 4000], responseCache = example_cached\<rparr>)
     = Inl (Error ''Rate limit exceeded'')
   \<and> getAIRationale example_parse (Response 429 (Unreadable ''quota'')) None (example_quote ''q2'' ''second'')
        (example_app [] Map.empty [])
     = (Inr \<lparr>title = ''Connected Ideas'',
             rationale = ''Rate limit reached. Please try again in a moment.'',
             labels = [''adjacent'']\<rparr>, example_app [] Map.empty [], [CacheLookup, AICall])
   \<and> fst (getAIRationale example_parse (Response 200 (Content ''{}'')) None (example_quote ''q2'' ''second'')
        (example_app [] Map.empty []))
     = Inr default_rationale"
proof -
  let ?st = "\<lparr>rateLimitStore = [getClientId None \<mapsto> replicate 30 4000], responseCache = example_cached\<rparr>"
  let ?e = "example_env (Response 200 (Content ''{}''))"
  have 1: "suggest_suggestion example_body = Some (example_quote ''q2'' ''second'')"
    by (simp add: example_body_def)
  have 2: "quote_text (example_quote ''q2'' ''second'') \<noteq> []"
    by (simp add: example_quote_def)
  have 3: "30 \<le> length (filter (\<lambda>t. now_rate ?e - 60000 < t)
                 (recorded (rateLimitStore ?st) (getClientId (suggest_systemPrompt example_body))))"
    by (simp add: example_env_def example_body_def recorded_def)
  have 4: "cache (example_app [] Map.empty [])
             (rationale_key (example_app [] Map.empty []) (example_quote ''q2'' ''second'')) = None"
    by (simp add: example_app_def)
  have 5: "openaiApiKey (settings (example_app [] Map.empty [])) \<noteq> []"
    by (simp add: example_app_def example_settings_def)
  have 6: "startsWith (openaiApiKey (settings (example_app [] Map.empty []))) ''sk-''"
    by (simp add: example_app_def example_settings_def)
  from rate_limit_outcomes [OF 1 2 3 4 5 6, of example_parse "Unreadable ''quota''" None
      "Response 200 (Content ''{}'')" None "example_quote ''q2'' ''second''" "example_app [] Map.empty []"]
  show ?thesis
    by (simp add: degraded_def example_app_def example_settings_def ok_def example_parse_def
        rationale_of_parsed_def default_rationale_def)
qed

subsection \<open>What a failed AI call returns\<close>

lemma request_rationale_Inl_iff:
  "(\<exists>err. request_rationale JP r = Inl err)
     = (case r of
          NetworkFailure m \<Rightarrow> True
        | Response status bd \<Rightarrow>
            \<not> ok status \<or> (case bd of Unreadable m \<Rightarrow> True
                             | Content c \<Rightarrow> (case JP c of Throws m \<Rightarrow> True | JValue p \<Rightarrow> False)))"
  by (auto simp: request_rationale_def split: reply.splits body.splits json.splits)

lemma callOpenAI_Inl_iff:
  "(\<exists>err. callOpenAI e = Inl err)
     = (api_key e = []
        \<or> (case ai_reply e of
              NetworkFailure m \<Rightarrow> True
            | Response status bd \<Rightarrow>
                \<not> ok status \<or> (case bd of Unreadable m \<Rightarrow> True | Content c \<Rightarrow> False)))"
  by (auto simp: callOpenAI_def split: reply.splits body.splits)

lemma fallbackMessage_generic:
  assumes "\<not> includes_str msg ''401''" and "\<not> includes_str msg ''429''"
  shows "fallbackMessage msg
           = (if includes_str msg ''API request failed''
              then ''Unable to connect to OpenAI. Please check your internet connection and API key.''
              else ''This quote connects to your previous selection through shared themes and concepts.'')"
  using assms by (simp add: fallbackMessage_def)

lemma suggest_miss_failure:
  assumes "callOpenAI e = Inl err"
  shows "suggest_miss JP e k st = (Inl err, st, [RateLimitCheck, CacheLookup, AICall])"
  using assms by (simp add: suggest_miss_def)

lemma suggest_miss_malformed:
  assumes "callOpenAI e = Inr content" and "JP content = Throws m"
  shows "fst (suggest_miss JP e k st)
           = Inr (Rationale \<lparr>title = ''Connected Ideas'',
                             rationale = substring0 200 content @ ''...'',
                             labels = [''adjacent'']\<rparr>)"
  using assms by (simp add: suggest_miss_def parseSuggestionResponse_def Let_def)

lemma snd_getFromCache: "snd (getFromCache now key c) = after_lookup now key c"
  by (simp add: getFromCache_def after_lookup_def split: option.splits)

lemma handleSuggestLogic_unusable:
  assumes "suggest_suggestion b = Some sug" and "quote_text sug \<noteq> []"
    and "length (filter (\<lambda>t. now_rate e - 60000 < t)
                 (recorded (rateLimitStore st) (getClientId (suggest_systemPrompt b)))) < 30"
    and "\<forall>entry. responseCache st (getCacheKey ''suggest'' (quote_id sug) (suggest_systemPrompt b)) = Some entry
           \<and> now_get e \<le> expires entry \<longrightarrow> \<not> truthy (data entry)"
  shows "handleSuggestLogic JP e b st
           = suggest_miss JP e (getCacheKey ''suggest'' (quote_id sug) (suggest_systemPrompt b))
              (st\<lparr>rateLimitStore := (clean_old (now_rate e - 60000) (rateLimitStore st))
                   (getClientId (suggest_systemPrompt b) \<mapsto>
                      filter (\<lambda>t. now_rate e - 60000 < t)
                        (recorded (rateLimitStore st) (getClientId (suggest_systemPrompt b))) @ [now_rate e]),
                  responseCache := after_lookup (now_get e)
                      (getCacheKey ''suggest'' (quote_id sug) (suggest_systemPrompt b)) (responseCache st)\<rparr>)"
proof (cases "responseCache st (getCacheKey ''suggest'' (quote_id sug) (suggest_systemPrompt b))")
  case None
  then show ?thesis
    using assms(1,2) checkRateLimit_allowed_eq [OF assms(3)]
    by (simp add: handleSuggestLogic_def getFromCache_def after_lookup_def Let_def)
next
  case (Some entry)
  show ?thesis
  proof (cases "now_get e \<le> expires entry")
    case True
    with Some assms(4) have "\<not> truthy (data entry)" by simp
    with Some True show ?thesis
      using assms(1,2) checkRateLimit_allowed_eq [OF assms(3)]
      by (simp add: handleSuggestLogic_def getFromCache_def after_lookup_def Let_def)
  next
    case False
    with Some show ?thesis
      using assms(1,2) checkRateLimit_allowed_eq [OF assms(3)]
      by (simp add: handleSuggestLogic_def getFromCache_def after_lookup_def Let_def)
  qed
qed

text \<open>
  Against claim C3 as stated: on the server a reply with status 401 makes
  \<open>handleSuggestLogic\<close> throw; no degraded Rationale is returned.
\<close>

theorem unauthorized_reply_raises:
  "fst (handleSuggestLogic example_parse (example_env (Response 401 (Unreadable ''unauthorized''))) example_body
        \<lparr>rateLimitStore = Map.empty, responseCache = Map.empty\<rparr>)
     = Inl (Error ''OpenAI API error: 401'')"
  by (simp add: handleSuggestLogic_def suggest_miss_def callOpenAI_def ok_def checkRateLimit_def
      clean_old_def getFromCache_def example_env_def example_body_def example_quote_def
      RATE_LIMIT_MAX_REQUESTS_def toString_def digits.simps digit_char_def)

text \<open>
  Claim C3, amended. In the browser (\<open>getAIRationale\<close>), every failure of the AI call (the
  request fails, the status is not 2xx, the body cannot be read, or the content is not
  valid JSON) gives a degraded Rationale titled \<open>Connected Ideas\<close> with labels
  \<open>["adjacent"]\<close>, whose text is chosen from the message of the error: for a three-digit
  status, 401 gives the check-your-API-key text, 429 the try-again text and any other
  status the unable-to-connect text; a message that contains neither \<open>401\<close> nor \<open>429\<close>
  gives the unable-to-connect text or the generic text; the cache is not written. On the
  server (\<open>handleSuggestLogic\<close>), whenever the lookup finds no usable entry (none, an expired
  one or a falsy one) and the AI call fails, the error is raised to the caller and nothing is
  written to the response cache: it is left as the lookup left it, that is with its contents,
  except that an expired entry of the request's key has been removed. A content that is not
  valid JSON is answered with the Rationale titled \<open>Connected Ideas\<close>, labelled
  \<open>["adjacent"]\<close>, whose text is the first 200 characters of the content followed by three
  dots.
\<close>

theorem ai_failure_outcomes:
  assumes "cache ast (rationale_key ast bsug) = None"
    and "openaiApiKey (settings ast) \<noteq> []" and "startsWith (openaiApiKey (settings ast)) ''sk-''"
    and "request_rationale JSON_parse r = Inl (Error msg)"
    and "100 \<le> status" and "status < 1000" and "\<not> ok status"
    and "suggest_suggestion b = Some sug" and "quote_text sug \<noteq> []"
    and "\<forall>entry. responseCache st (getCacheKey ''suggest'' (quote_id sug) (suggest_systemPrompt b)) = Some entry
           \<and> now_get e \<le> expires entry \<longrightarrow> \<not> truthy (data entry)"
    and "length (filter (\<lambda>t. now_rate e - 60000 < t)
                 (recorded (rateLimitStore st) (getClientId (suggest_systemPrompt b)))) < 30"
    and "callOpenAI e = Inl err"
    and "\<forall>entry. responseCache st (getCacheKey ''suggest'' (quote_id sug) (suggest_systemPrompt b)) = Some entry
           \<and> now_get e2 \<le> expires entry \<longrightarrow> \<not> truthy (data entry)"
    and "length (filter (\<lambda>t. now_rate e2 - 60000 < t)
                 (recorded (rateLimitStore st) (getClientId (suggest_systemPrompt b)))) < 30"
    and "callOpenAI e2 = Inr content" and "JSON_parse content = Throws m"
  shows "getAIRationale JSON_parse r seed bsug ast
           = (Inr (degraded (fallbackMessage msg)), ast, [CacheLookup, AICall])
       \<and> getAIRationale_resume JSON_parse r cacheKey ast'
           = (Inr (degraded (fallbackMessage msg)), ast', [AICall])
       \<and> (\<exists>failure. request_rationale JSON_parse r' = Inl failure)
           = (case r' of
                NetworkFailure m' \<Rightarrow> True
              | Response status' bd' \<Rightarrow>
                  \<not> ok status' \<or> (case bd' of Unreadable m' \<Rightarrow> True
                                     | Content c \<Rightarrow> (case JSON_parse c of Throws m' \<Rightarrow> True | JValue p \<Rightarrow> False)))
       \<and> (\<exists>failure. callOpenAI e' = Inl failure)
           = (api_key e' = []
              \<or> (case ai_reply e' of
                    NetworkFailure m' \<Rightarrow> True
                  | Response status' bd' \<Rightarrow>
                      \<not> ok status' \<or> (case bd' of Unreadable m' \<Rightarrow> True | Content c \<Rightarrow> False)))
       \<and> request_rationale JSON_parse (Response status bd)
           = Inl (Error (''API request failed: '' @ toString (int status)))
       \<and> fallbackMessage (''API request failed: '' @ toString (int status))
           = (if status = 401 then ''Invalid API key. Please check your OpenAI API key in Settings.''
              else if status = 429 then ''Rate limit reached. Please try again in a moment.''
              else ''Unable to connect to OpenAI. Please check your internet connection and API key.'')
       \<and> (\<not> includes_str msg ''401'' \<and> \<not> includes_str msg ''429'' \<longrightarrow>
            fallbackMessage msg
              = (if includes_str msg ''API request failed''
                 then ''Unable to connect to OpenAI. Please check your internet connection and API key.''
                 else ''This quote connects to your previous selection through shared themes and concepts.''))
       \<and> fst (handleSuggestLogic JSON_parse e b st) = Inl err
       \<and> snd (snd (handleSuggestLogic JSON_parse e b st)) = [RateLimitCheck, CacheLookup, AICall]
       \<and> responseCache (fst (snd (handleSuggestLogic JSON_parse e b st)))
           = (case responseCache st (getCacheKey ''suggest'' (quote_id sug) (suggest_systemPrompt b)) of
                None \<Rightarrow> responseCache st
              | Some entry \<Rightarrow>
                  if now_get e > expires entry
                  then (responseCache st)(getCacheKey ''suggest'' (quote_id sug) (suggest_systemPrompt b) := None)
                  else responseCache st)
       \<and> fst (handleSuggestLogic JSON_parse e2 b st)
           = Inr (Rationale \<lparr>title = ''Connected Ideas'',
                             rationale = substring0 200 content @ ''...'',
                             labels = [''adjacent'']\<rparr>)"
proof -
  have browser: "getAIRationale JSON_parse r seed bsug ast
           = (Inr (degraded (fallbackMessage msg)), ast, [CacheLookup, AICall])"
    using assms(1-4) by (rule getAIRationale_failure)
  have resumed: "getAIRationale_resume JSON_parse r cacheKey ast'
           = (Inr (degraded (fallbackMessage msg)), ast', [AICall])"
    using assms(4) by (rule getAIRationale_resume_failure)
  have kinds: "(\<exists>failure. request_rationale JSON_parse r' = Inl failure)
           = (case r' of
                NetworkFailure m' \<Rightarrow> True
              | Response status' bd' \<Rightarrow>
                  \<not> ok status' \<or> (case bd' of Unreadable m' \<Rightarrow> True
                                     | Content c \<Rightarrow> (case JSON_parse c of Throws m' \<Rightarrow> True | JValue p \<Rightarrow> False)))"
    by (rule request_rationale_Inl_iff)
  have server_kinds: "(\<exists>failure. callOpenAI e' = Inl failure)
           = (api_key e' = []
              \<or> (case ai_reply e' of
                    NetworkFailure m' \<Rightarrow> True
                  | Response status' bd' \<Rightarrow>
                      \<not> ok status' \<or> (case bd' of Unreadable m' \<Rightarrow> True | Content c \<Rightarrow> False)))"
    by (rule callOpenAI_Inl_iff)
  have status: "request_rationale JSON_parse (Response status bd)
           = Inl (Error (''API request failed: '' @ toString (int status)))"
    using assms(7) by (rule request_rationale_status)
  have table: "fallbackMessage (''API request failed: '' @ toString (int status))
           = (if status = 401 then ''Invalid API key. Please check your OpenAI API key in Settings.''
              else if status = 429 then ''Rate limit reached. Please try again in a moment.''
              else ''Unable to connect to OpenAI. Please check your internet connection and API key.'')"
    using assms(5,6) by (rule status_table)
  have generic: "\<not> includes_str msg ''401'' \<and> \<not> includes_str msg ''429'' \<longrightarrow>
            fallbackMessage msg
              = (if includes_str msg ''API request failed''
                 then ''Unable to connect to OpenAI. Please check your internet connection and API key.''
                 else ''This quote connects to your previous selection through shared themes and concepts.'')"
    using fallbackMessage_generic [of msg] by blast
  have raised: "fst (handleSuggestLogic JSON_parse e b st) = Inl err
       \<and> snd (snd (handleSuggestLogic JSON_parse e b st)) = [RateLimitCheck, CacheLookup, AICall]
       \<and> responseCache (fst (snd (handleSuggestLogic JSON_parse e b st)))
           = (case responseCache st (getCacheKey ''suggest'' (quote_id sug) (suggest_systemPrompt b)) of
                None \<Rightarrow> responseCache st
              | Some entry \<Rightarrow>
                  if now_get e > expires entry
                  then (responseCache st)(getCacheKey ''suggest'' (quote_id sug) (suggest_systemPrompt b) := None)
                  else responseCache st)"
    by (simp add: handleSuggestLogic_unusable [OF assms(8,9,11,10)] suggest_miss_failure [OF assms(12)]
        after_lookup_def)
  have malformed: "fst (handleSuggestLogic JSON_parse e2 b st)
           = Inr (Rationale \<lparr>title = ''Connected Ideas'',
                             rationale = substring0 200 content @ ''...'',
                             labels = [''adjacent'']\<rparr>)"
    by (simp only: handleSuggestLogic_unusable [OF assms(8,9,14,13)]
        suggest_miss_malformed [of e2 content JSON_parse m, OF assms(15,16)])
  from browser resumed kinds server_kinds status table generic raised malformed show ?thesis
    by (simp only: simp_thms)
qed

theorem ai_failure_outcomes_witness:
  "getAIRationale example_parse (NetworkFailure ''Failed to fetch'') None (example_quote ''q2'' ''second'')
       (example_app [] Map.empty [])
     = (Inr \<lparr>title = ''Connected Ideas'',
             rationale = ''This quote connects to your previous selection through shared themes and concepts.'',
             labels = [''adjacent'']\<rparr>, example_app [] Map.empty [], [CacheLookup, AICall])
   \<and> fallbackMessage (''API request failed: '' @ toString (int 500))
     = ''Unable to connect to OpenAI. Please check your internet connection and API key.''
   \<and> fst (handleSuggestLogic example_parse (example_env (Response 401 (Unreadable ''unauthorized'')))
          example_body \<lparr>rateLimitStore = Map.empty, responseCache = expired_cached\<rparr>)
     = Inl (Error ''OpenAI API error: 401'')
   \<and> responseCache (fst (snd (handleSuggestLogic example_parse
          (example_env (Response 401 (Unreadable ''unauthorized'')))
          example_body \<lparr>rateLimitStore = Map.empty, responseCache = expired_cached\<rparr>)))
     = expired_cached(example_key := None)
   \<and> fst (handleSuggestLogic example_parse (example_env (Response 200 (Content ''not json'')))
          example_body \<lparr>rateLimitStore = Map.empty, responseCache = expired_cached\<rparr>)
     = Inr (Rationale \<lparr>title = ''Connected Ideas'', rationale = ''not json...'', labels = [''adjacent'']\<rparr>)"
proof -
  let ?app = "example_app [] Map.empty []"
  let ?q = "example_quote ''q2'' ''second''"
  let ?st = "\<lparr>rateLimitStore = Map.empty, responseCache = expired_cached\<rparr>"
  let ?e = "example_env (Response 401 (Unreadable ''unauthorized''))"
  let ?e2 = "example_env (Response 200 (Content ''not json''))"
  have 1: "cache ?app (rationale_key ?app ?q) = None"
    by (simp add: example_app_def)
  have 2: "openaiApiKey (settings ?app) \<noteq> []"
    by (simp add: example_app_def example_settings_def)
  have 3: "startsWith (openaiApiKey (settings ?app)) ''sk-''"
    by (simp add: example_app_def example_settings_def)
  have 4: "request_rationale example_parse (NetworkFailure ''Failed to fetch'') = Inl (Error ''Failed to fetch'')"
    by (simp add: request_rationale_def)
  have 5: "100 \<le> (500::nat)" and 6: "(500::nat) < 1000" and 7: "\<not> ok 500"
    by (simp_all add: ok_def)
  have 8: "suggest_suggestion example_body = Some ?q"
    by (simp add: example_body_def)
  have 9: "quote_text ?q \<noteq> []"
    by (simp add: example_quote_def)
  have 10: "\<forall>entry. responseCache ?st (getCacheKey ''suggest'' (quote_id ?q) (suggest_systemPrompt example_body)) = Some entry
           \<and> now_get ?e \<le> expires entry \<longrightarrow> \<not> truthy (data entry)"
    by (auto simp: expired_cached_def example_key_def example_body_def example_quote_def example_env_def)
  have 11: "length (filter (\<lambda>t. now_rate ?e - 60000 < t)
                 (recorded (rateLimitStore ?st) (getClientId (suggest_systemPrompt example_body)))) < 30"
    by (simp add: recorded_def)
  have 12: "callOpenAI ?e = Inl (Error ''OpenAI API error: 401'')"
    by (simp add: callOpenAI_def example_env_def ok_def toString_def digits.simps digit_char_def)
  have 13: "\<forall>entry. responseCache ?st (getCacheKey ''suggest'' (quote_id ?q) (suggest_systemPrompt example_body)) = Some entry
           \<and> now_get ?e2 \<le> expires entry \<longrightarrow> \<not> truthy (data entry)"
    by (auto simp: expired_cached_def example_key_def example_body_def example_quote_def example_env_def)
  have 14: "length (filter (\<lambda>t. now_rate ?e2 - 60000 < t)
                 (recorded (rateLimitStore ?st) (getClientId (suggest_systemPrompt example_body)))) < 30"
    by (simp add: recorded_def)
  have 15: "callOpenAI ?e2 = Inr ''not json''"
    by (simp add: callOpenAI_def example_env_def ok_def)
  have 16: "example_parse ''not json'' = Throws ''Unexpected token''"
    by (simp add: example_parse_def)
  from ai_failure_outcomes [OF 1 2 3 4 5 6 7 8 9 10 11 12 13 14 15 16, of None]
  show ?thesis
    by (simp add: fallbackMessage_def substring0_def degraded_def expired_cached_def example_key_def
        example_body_def example_quote_def example_env_def)
qed

subsection \<open>Candidate generation\<close>

lemma set_set_add: "set (set_add x xs) = insert x (set xs)"
  by (auto simp: set_add_def)

lemma add_neighbor_inv:
  assumes "\<forall>iq\<in>set c. quote_id (snd iq) \<notin> set (recentPicks st)"
  shows "\<forall>iq\<in>set (add_neighbor st n c). quote_id (snd iq) \<notin> set (recentPicks st)"
  using assms by (auto simp: add_neighbor_def set_set_add split: option.splits)

lemma add_lexical_inv:
  assumes "\<forall>iq\<in>set c. quote_id (snd iq) \<notin> set (recentPicks st)"
  shows "\<forall>iq\<in>set (add_lexical st seed ws x c). quote_id (snd iq) \<notin> set (recentPicks st)"
  using assms by (auto simp: add_lexical_def set_set_add Let_def)

lemma fold_add_neighbor_inv:
  assumes "\<forall>iq\<in>set c. quote_id (snd iq) \<notin> set (recentPicks st)"
  shows "\<forall>iq\<in>set (fold (add_neighbor st) ns c). quote_id (snd iq) \<notin> set (recentPicks st)"
  using assms
proof (induction ns arbitrary: c)
  case Nil
  then show ?case by simp
next
  case (Cons n ns)
  show ?case
    using Cons.IH [OF add_neighbor_inv [OF Cons.prems]] by simp
qed

lemma fold_add_lexical_inv:
  assumes "\<forall>iq\<in>set c. quote_id (snd iq) \<notin> set (recentPicks st)"
  shows "\<forall>iq\<in>set (fold (add_lexical st seed ws) xs c). quote_id (snd iq) \<notin> set (recentPicks st)"
  using assms
proof (induction xs arbitrary: c)
  case Nil
  then show ?case by simp
next
  case (Cons x xs)
  show ?case
    using Cons.IH [OF add_lexical_inv [OF Cons.prems]] by simp
qed

lemma getCandidates_excludes_recent:
  assumes "getCandidates st seed = Inr cs"
  shows "\<forall>q\<in>set cs. quote_id q \<notin> set (recentPicks st)"
proof -
  obtain ns where ns: "seed_neighbors ''forEach'' st seed = Inr ns"
    using assms by (auto simp: getCandidates_def split: sum.splits)
  have "\<forall>iq\<in>set (fold (add_neighbor st) ns []). quote_id (snd iq) \<notin> set (recentPicks st)"
    by (rule fold_add_neighbor_inv) simp
  then have "\<forall>iq\<in>set (fold (add_lexical st seed (split_ws (toLowerCase (quote_text seed)))) (enumerate 0 (quotes st))
        (fold (add_neighbor st) ns [])). quote_id (snd iq) \<notin> set (recentPicks st)"
    by (rule fold_add_lexical_inv)
  then show ?thesis
    using assms ns by (auto simp: getCandidates_def Let_def)
qed

lemma find_Some_pred: "find P xs = Some x \<Longrightarrow> P x"
  by (induction xs) (auto split: if_splits)

lemma add_neighbor_seed:
  assumes "\<forall>iq\<in>set c. quote_id (snd iq) \<noteq> sid" and "n \<noteq> sid"
  shows "\<forall>iq\<in>set (add_neighbor st n c). quote_id (snd iq) \<noteq> sid"
  using assms by (auto simp: add_neighbor_def set_set_add split: option.splits dest: find_Some_pred)

lemma fold_add_neighbor_seed:
  assumes "\<forall>iq\<in>set c. quote_id (snd iq) \<noteq> sid" and "sid \<notin> set ns"
  shows "\<forall>iq\<in>set (fold (add_neighbor st) ns c). quote_id (snd iq) \<noteq> sid"
  using assms
proof (induction ns arbitrary: c)
  case Nil
  then show ?case by simp
next
  case (Cons n ns)
  then have "n \<noteq> sid" and "sid \<notin> set ns" by auto
  from Cons.IH [OF add_neighbor_seed [OF Cons.prems(1) this(1)] this(2)] show ?case
    by simp
qed

lemma fold_add_lexical_seed:
  assumes "\<forall>iq\<in>set c. quote_id (snd iq) \<noteq> quote_id seed"
  shows "\<forall>iq\<in>set (fold (add_lexical st seed ws) xs c). quote_id (snd iq) \<noteq> quote_id seed"
  using assms
proof (induction xs arbitrary: c)
  case Nil
  then show ?case by simp
next
  case (Cons x xs)
  have "\<forall>iq\<in>set (add_lexical st seed ws x c). quote_id (snd iq) \<noteq> quote_id seed"
    using Cons.prems by (auto simp: add_lexical_def set_set_add Let_def)
  from Cons.IH [OF this] show ?case by simp
qed

lemma getCandidates_excludes_seed:
  assumes "getCandidates st seed = Inr cs"
    and "seed_neighbors ''forEach'' st seed = Inr ns" and "quote_id seed \<notin> set ns"
  shows "\<forall>q\<in>set cs. quote_id q \<noteq> quote_id seed"
proof -
  have "\<forall>iq\<in>set (fold (add_neighbor st) ns []). quote_id (snd iq) \<noteq> quote_id seed"
    using assms(3) by (intro fold_add_neighbor_seed) simp_all
  then have "\<forall>iq\<in>set (fold (add_lexical st seed (split_ws (toLowerCase (quote_text seed)))) (enumerate 0 (quotes st))
        (fold (add_neighbor st) ns [])). quote_id (snd iq) \<noteq> quote_id seed"
    by (rule fold_add_lexical_seed)
  then show ?thesis
    using assms(1,2) by (auto simp: getCandidates_def Let_def)
qed

text \<open>
  Claim C4 says that the output of the candidate generator never contains the seed, also
  for candidates from the neighbor list. The lexical branch skips the seed; the neighbor
  branch does not: when the neighbor list of the seed names the seed itself, the seed is
  returned as a candidate.
\<close>

theorem getCandidates_returns_seed:
  "getCandidates (example_app [example_quote ''q1'' ''the unexamined life'', example_quote ''q2'' ''worth living'']
                    [''q1'' \<mapsto> [''q1'', ''q2'']] [])
     (example_quote ''q1'' ''the unexamined life'')
   = Inr [example_quote ''q1'' ''the unexamined life'', example_quote ''q2'' ''worth living'']"
  by (simp add: getCandidates_def seed_neighbors_def example_app_def example_quote_def
      add_neighbor_def add_lexical_def set_add_def enumerate_eq_zip toLowerCase_def lower_char_def is_space_def)

subsection \<open>Rounding to the nearest double\<close>

lemma scale_up_eval:
  assumes "k \<le> fuel" and "\<forall>j<k. m * 2 ^ j < 2 ^ 52" and "2 ^ 52 \<le> m * 2 ^ k \<or> k = fuel"
  shows "scale_up fuel m e = (m * 2 ^ k, e - int k)"
  using assms
proof (induction fuel arbitrary: m e k)
  case 0
  then show ?case by simp
next
  case (Suc fuel)
  show ?case
  proof (cases k)
    case 0
    with Suc.prems show ?thesis by simp
  next
    case (Suc k')
    have small: "m < 2 ^ 52"
      using Suc.prems(2) Suc by force
    have 1: "k' \<le> fuel"
      using Suc.prems(1) Suc by simp
    have 2: "\<forall>j<k'. (2 * m) * 2 ^ j < 2 ^ 52"
    proof (intro allI impI)
      fix j assume "j < k'"
      then have "Suc j < k" using Suc by simp
      with Suc.prems(2) have "m * 2 ^ Suc j < 2 ^ 52" by blast
      then show "(2 * m) * 2 ^ j < 2 ^ 52" by (simp add: mult.assoc)
    qed
    have 3: "2 ^ 52 \<le> (2 * m) * 2 ^ k' \<or> k' = fuel"
      using Suc.prems(3) Suc by (auto simp: mult.assoc)
    from Suc.IH [OF 1 2 3, of "e - 1"] small Suc show ?thesis
      by (simp add: mult.assoc)
  qed
qed

lemma scale_down_small: "m < 2 ^ 53 \<Longrightarrow> scale_down fuel m e = (m, e)"
  by (cases fuel) simp_all

lemma fl_eval:
  assumes "0 \<le> x" and "k \<le> 1074" and "k = 0 \<or> x * 2 ^ (k - 1) < 2 ^ 52"
    and "2 ^ 52 \<le> x * 2 ^ k \<or> k = 1074" and "x * 2 ^ k < 2 ^ 53"
  shows "fl x = of_int (round_even (x * 2 ^ k)) / 2 ^ k"
proof -
  have below: "\<forall>j<k. x * 2 ^ j < 2 ^ 52"
  proof (intro allI impI)
    fix j assume j: "j < k"
    then have "k \<noteq> 0" by simp
    with assms(3) have top: "x * 2 ^ (k - 1) < 2 ^ 52" by simp
    have "(2::rat) ^ j \<le> 2 ^ (k - 1)"
      using j by (intro power_increasing) simp_all
    then have "x * 2 ^ j \<le> x * 2 ^ (k - 1)"
      using assms(1) by (rule mult_left_mono)
    with top show "x * 2 ^ j < 2 ^ 52" by simp
  qed
  have up: "scale_up 1074 x 0 = (x * 2 ^ k, 0 - int k)"
    using assms(2) below assms(4) by (rule scale_up_eval)
  have down: "scale_down 971 (x * 2 ^ k) (0 - int k) = (x * 2 ^ k, 0 - int k)"
    using assms(5) by (rule scale_down_small)
  have "fl_abs x = of_int (round_even (x * 2 ^ k)) * 2 powi (0 - int k)"
    unfolding fl_abs_def up Let_def prod.case down ..
  then have "fl_abs x = of_int (round_even (x * 2 ^ k)) * 2 powi (- int k)"
    by simp
  also have "\<dots> = of_int (round_even (x * 2 ^ k)) / 2 ^ k"
    by (simp add: power_int_minus divide_inverse)
  finally show ?thesis
    using assms(1) by (simp add: fl_def)
qed

lemma floor_divide_numeral_rat:
  "\<lfloor>numeral a / numeral b :: rat\<rfloor> = numeral a div numeral b"
  by (metis floor_divide_of_int_eq of_int_numeral)

lemma fl_0: "fl 0 = 0"
  using fl_eval [of 0 1074] by (simp add: round_even_def Let_def floor_divide_numeral_rat)

lemma fl_1: "fl 1 = 1"
  using fl_eval [of 1 52] by (simp add: round_even_def Let_def floor_divide_numeral_rat)

lemma fl_half: "fl (1 / 2) = 1 / 2"
  using fl_eval [of "1 / 2" 53] by (simp add: round_even_def Let_def floor_divide_numeral_rat)

lemma fl_03: "fl (3 / 10) = 5404319552844595 / 2 ^ 54"
  using fl_eval [of "3 / 10" 54] by (simp add: round_even_def Let_def floor_divide_numeral_rat)

lemma fl_01: "fl (1 / 10) = 3602879701896397 / 2 ^ 55"
  using fl_eval [of "1 / 10" 56] by (simp add: round_even_def Let_def floor_divide_numeral_rat)

lemma scale_up_inv:
  "(case scale_up fuel m e of (m', e') \<Rightarrow>
      m' * 2 powi e' = m * 2 powi e \<and> e - int fuel \<le> e' \<and> (2 ^ 52 \<le> m' \<or> e' = e - int fuel))"
proof (induction fuel arbitrary: m e)
  case 0
  then show ?case by simp
next
  case (Suc fuel)
  show ?case
  proof (cases "m < 2 ^ 52")
    case False
    then show ?thesis by simp
  next
    case True
    obtain m' e' where r: "scale_up fuel (2 * m) (e - 1) = (m', e')"
      by (cases "scale_up fuel (2 * m) (e - 1)") auto
    have "(2::rat) powi e = 2 powi (e - 1) * 2"
      by (simp add: power_int_diff)
    then have "2 * m * 2 powi (e - 1) = m * 2 powi e"
      by simp
    with Suc.IH [where m = "2 * m" and e = "e - 1"] r True show ?thesis
      by auto
  qed
qed

lemma scale_down_inv:
  "(case scale_down fuel m e of (m', e') \<Rightarrow>
      m' * 2 powi e' = m * 2 powi e \<and> e \<le> e' \<and> (2 ^ 52 \<le> m \<longrightarrow> 2 ^ 52 \<le> m')
      \<and> (m < 2 ^ 53 \<longrightarrow> m' = m \<and> e' = e))"
proof (induction fuel arbitrary: m e)
  case 0
  then show ?case by simp
next
  case (Suc fuel)
  show ?case
  proof (cases "2 ^ 53 \<le> m")
    case False
    then show ?thesis by simp
  next
    case True
    obtain m' e' where r: "scale_down fuel (m / 2) (e + 1) = (m', e')"
      by (cases "scale_down fuel (m / 2) (e + 1)") auto
    have "(2::rat) powi (e + 1) = 2 powi e * 2"
      by (simp add: power_int_add)
    then have "m / 2 * 2 powi (e + 1) = m * 2 powi e"
      by simp
    moreover have "(2::rat) ^ 52 \<le> m / 2"
      using True by simp
    ultimately show ?thesis
      using Suc.IH [where m = "m / 2" and e = "e + 1"] r True by auto
  qed
qed

lemma fl_abs_decomp:
  obtains m e where "fl_abs x = of_int (round_even m) * 2 powi e" and "m * 2 powi e = x"
    and "- 1074 \<le> e" and "2 ^ 52 \<le> m \<or> e = - 1074"
proof -
  obtain m1 e1 where up: "scale_up 1074 x 0 = (m1, e1)"
    by (cases "scale_up 1074 x 0") auto
  obtain m e where down: "scale_down 971 m1 e1 = (m, e)"
    by (cases "scale_down 971 m1 e1") auto
  have u: "m1 * 2 powi e1 = x \<and> - 1074 \<le> e1 \<and> (2 ^ 52 \<le> m1 \<or> e1 = - 1074)"
    using scale_up_inv [where fuel = 1074 and m = x and e = 0] up by simp
  have d: "m * 2 powi e = m1 * 2 powi e1 \<and> e1 \<le> e \<and> (2 ^ 52 \<le> m1 \<longrightarrow> 2 ^ 52 \<le> m)
      \<and> (m1 < 2 ^ 53 \<longrightarrow> m = m1 \<and> e = e1)"
    using scale_down_inv [where fuel = 971 and m = m1 and e = e1] down by simp
  have 1: "fl_abs x = of_int (round_even m) * 2 powi e"
    by (simp add: fl_abs_def up down)
  have 2: "m * 2 powi e = x"
    using u d by simp
  have 3: "- 1074 \<le> e"
    using u d by linarith
  have 4: "2 ^ 52 \<le> m \<or> e = - 1074"
  proof (cases "2 ^ 52 \<le> m1")
    case True
    with d show ?thesis by simp
  next
    case False
    then have "m1 < 2 ^ 53" by simp
    with d u False show ?thesis by auto
  qed
  from that [OF 1 2 3 4] show thesis .
qed

lemma round_even_upper: "of_int (round_even m) \<le> m + 1 / 2"
  unfolding round_even_def Let_def by (auto simp: not_less) linarith+

lemma round_even_pos: "1 \<le> m \<Longrightarrow> 1 \<le> round_even m"
  unfolding round_even_def Let_def by (auto simp: not_less le_floor_iff) 

lemma round_even_nonneg: "0 \<le> m \<Longrightarrow> 0 \<le> round_even m"
  unfolding round_even_def Let_def by (auto simp: not_less le_floor_iff)

lemma powi_pos: "0 < (2::rat) powi e"
  by simp

lemma fl_abs_nonneg:
  assumes "0 \<le> x"
  shows "0 \<le> fl_abs x"
proof -
  obtain m e where d: "fl_abs x = of_int (round_even m) * 2 powi e" "m * 2 powi e = x"
    by (rule fl_abs_decomp)
  have "0 * 2 powi e \<le> m * 2 powi e"
    by (simp only: d(2) mult_zero_left assms)
  then have "0 \<le> m"
    by (simp only: mult_le_cancel_right_pos [OF powi_pos])
  then have "0 \<le> round_even m" by (rule round_even_nonneg)
  with d(1) show ?thesis by simp
qed

lemma powi_minus_1074: "(2::rat) powi (- 1074) = 1 / 2 ^ 1074"
  by (simp only: power_int_minus power_int_numeral inverse_eq_divide)

lemma fl_abs_pos:
  assumes "1 / 2 ^ 1074 \<le> x"
  shows "0 < fl_abs x"
proof -
  obtain m e where d: "fl_abs x = of_int (round_even m) * 2 powi e" "m * 2 powi e = x"
    "2 ^ 52 \<le> m \<or> e = - 1074"
    by (rule fl_abs_decomp)
  have "1 \<le> m"
  proof (cases "2 ^ 52 \<le> m")
    case True
    have "(1::rat) \<le> 2 ^ 52" by (rule one_le_power) simp
    with True show ?thesis by (rule order_trans [rotated])
  next
    case False
    with d(3) have "e = - 1074" by simp
    with d(2) have "x = m * (1 / 2 ^ 1074)"
      by (simp only: powi_minus_1074)
    with assms have "1 * (1 / 2 ^ 1074) \<le> m * (1 / 2 ^ 1074)"
      by (simp only: mult_1)
    moreover have "(0::rat) < 1 / 2 ^ 1074"
      by (simp only: zero_less_divide_1_iff zero_less_power zero_less_numeral)
    ultimately show ?thesis
      by (simp only: mult_le_cancel_right_pos)
  qed
  then have "1 \<le> round_even m" by (rule round_even_pos)
  then have "0 < (of_int (round_even m) :: rat)" by simp
  then have "0 < of_int (round_even m) * (2::rat) powi e"
    using powi_pos by (rule mult_pos_pos)
  with d(1) show ?thesis by simp
qed

lemma fl_abs_multiple: "\<exists>n. fl_abs x = of_int n * (1 / 2 ^ 1074)"
proof -
  obtain m e where d: "fl_abs x = of_int (round_even m) * 2 powi e" "- 1074 \<le> e"
    by (rule fl_abs_decomp)
  define j where "j = nat (e + 1074)"
  have e: "e = int j + (- 1074)"
    using d(2) by (simp add: j_def)
  have "(2::rat) powi (int j + (- 1074)) = 2 powi int j * 2 powi (- 1074)"
    by (rule power_int_add) simp
  then have "(2::rat) powi e = of_int (2 ^ j) * (1 / 2 ^ 1074)"
    by (simp only: e powi_minus_1074 power_int_of_nat of_int_power of_int_numeral)
  then have "fl_abs x = of_int (round_even m * 2 ^ j) * (1 / 2 ^ 1074)"
    by (simp only: d(1) of_int_mult mult.assoc)
  then show ?thesis by blast
qed

lemma fl_multiple: "\<exists>n. fl x = of_int n * (1 / 2 ^ 1074)"
proof (cases "x < 0")
  case False
  with fl_abs_multiple [of x] show ?thesis by (simp only: fl_def if_False)
next
  case True
  obtain n where "fl_abs (- x) = of_int n * (1 / 2 ^ 1074)"
    using fl_abs_multiple [of "- x"] by blast
  then have "fl x = of_int (- n) * (1 / 2 ^ 1074)"
    using True by (simp only: fl_def if_True of_int_minus mult_minus_left)
  then show ?thesis by blast
qed

lemma fl_sign:
  assumes "x = of_int n * (1 / 2 ^ 1074)"
  shows "(fl x < 0) = (x < 0) \<and> (fl x = 0) = (x = 0)"
proof -
  have u: "(0::rat) < 1 / 2 ^ 1074"
    by (simp only: zero_less_divide_1_iff zero_less_power zero_less_numeral)
  consider "n < 0" | "n = 0" | "0 < n" by linarith
  then show ?thesis
  proof cases
    case 1
    then have "of_int n * (1 / 2 ^ 1074) < (0::rat) * (1 / 2 ^ 1074)"
      using u by (simp only: mult_less_cancel_right_pos of_int_less_0_iff)
    then have neg: "x < 0"
      by (simp only: assms mult_zero_left)
    from 1 have "1 \<le> - n" by simp
    then have "(1::rat) \<le> of_int (- n)" by (simp only: of_int_1_le_iff)
    then have "1 * (1 / 2 ^ 1074) \<le> of_int (- n) * (1 / 2 ^ 1074 :: rat)"
      using u by (simp only: mult_le_cancel_right_pos)
    then have "1 / 2 ^ 1074 \<le> - x"
      by (simp only: assms mult_1 of_int_minus mult_minus_left)
    then have "0 < fl_abs (- x)" by (rule fl_abs_pos)
    with neg show ?thesis by (simp add: fl_def)
  next
    case 2
    with assms have "x = 0" by simp
    then show ?thesis by (simp add: fl_0)
  next
    case 3
    then have "(0::rat) * (1 / 2 ^ 1074) < of_int n * (1 / 2 ^ 1074)"
      using u by (simp only: mult_less_cancel_right_pos of_int_0_less_iff)
    then have pos: "0 < x"
      by (simp only: assms mult_zero_left)
    from 3 have "1 \<le> n" by simp
    then have "(1::rat) \<le> of_int n" by (simp only: of_int_1_le_iff)
    then have "1 * (1 / 2 ^ 1074) \<le> of_int n * (1 / 2 ^ 1074 :: rat)"
      using u by (simp only: mult_le_cancel_right_pos)
    then have "1 / 2 ^ 1074 \<le> x"
      by (simp only: assms mult_1)
    then have "0 < fl_abs x" by (rule fl_abs_pos)
    with pos show ?thesis by (simp add: fl_def)
  qed
qed

lemma fl_difference_sign:
  "(fl (fl b - fl a) < 0) = (fl b < fl a) \<and> (fl (fl b - fl a) = 0) = (fl b = fl a)"
proof -
  obtain i j where "fl b = of_int i * (1 / 2 ^ 1074)" and "fl a = of_int j * (1 / 2 ^ 1074)"
    using fl_multiple [of a] fl_multiple [of b] by blast
  then have "fl b - fl a = of_int (i - j) * (1 / 2 ^ 1074)"
    by (simp only: of_int_diff left_diff_distrib)
  from fl_sign [OF this] show ?thesis
    by (simp only: diff_less_0_iff_less right_minus_eq)
qed

lemma fl_abs_upper:
  assumes "0 \<le> x"
  shows "fl_abs x \<le> x + x / 2 ^ 53 + 1 / 2 ^ 1075"
proof -
  obtain m e where d: "fl_abs x = of_int (round_even m) * 2 powi e" "m * 2 powi e = x"
    "2 ^ 52 \<le> m \<or> e = - 1074"
    by (rule fl_abs_decomp)
  have "of_int (round_even m) * 2 powi e \<le> (m + 1 / 2) * 2 powi e"
    using round_even_upper [of m] by (simp only: mult_le_cancel_right_pos [OF powi_pos])
  also have "\<dots> = x + 2 powi e / 2"
    by (simp only: distrib_right d(2) times_divide_eq_left mult_1)
  finally have bound: "fl_abs x \<le> x + 2 powi e / 2"
    by (simp only: d(1))
  have "(2::rat) powi e / 2 \<le> x / 2 ^ 53 + 1 / 2 ^ 1075"
  proof (cases "2 ^ 52 \<le> m")
    case True
    then have "2 ^ 52 * 2 powi e \<le> m * 2 powi e"
      by (simp only: mult_le_cancel_right_pos [OF powi_pos])
    then have "2 ^ 52 * 2 powi e \<le> x"
      by (simp only: d(2))
    then have "2 powi e / 2 \<le> x / 2 ^ 53"
      by simp
    moreover have "(0::rat) \<le> 1 / 2 ^ 1075"
      by simp
    ultimately show ?thesis by linarith
  next
    case False
    with d(3) have "e = - 1074" by simp
    then have "(2::rat) powi e / 2 = 1 / 2 ^ 1074 / 2"
      by (simp only: powi_minus_1074)
    also have "\<dots> = 1 / 2 ^ 1075"
      by simp
    finally have "(2::rat) powi e / 2 = 1 / 2 ^ 1075" .
    moreover have "0 \<le> x / 2 ^ 53"
      using assms by simp
    ultimately show ?thesis by linarith
  qed
  with bound show ?thesis by linarith
qed

lemma fl_jitter_range:
  assumes "0 \<le> r" and "r \<le> 1 - 1 / 2 ^ 53"
  shows "0 \<le> fl (r * fl (1 / 10)) \<and> fl (r * fl (1 / 10)) < fl (1 / 10)"
proof -
  define x where "x = r * (3602879701896397 / 2 ^ 55)"
  have x0: "0 \<le> x"
    using assms(1) by (simp add: x_def)
  have "r * (3602879701896397 / 2 ^ 55) \<le> (1 - 1 / 2 ^ 53) * (3602879701896397 / 2 ^ 55)"
    using assms(2) by (rule mult_right_mono) simp
  then have xc: "x \<le> (1 - 1 / 2 ^ 53) * (3602879701896397 / 2 ^ 55)"
    by (simp only: x_def)
  have "fl_abs x \<le> x + x / 2 ^ 53 + 1 / 2 ^ 1075"
    using x0 by (rule fl_abs_upper)
  with xc have "fl_abs x < 3602879701896397 / 2 ^ 55"
    by simp
  moreover have "0 \<le> fl_abs x"
    using x0 by (rule fl_abs_nonneg)
  moreover have "fl x = fl_abs x"
    using x0 by (simp add: fl_def)
  ultimately show ?thesis
    by (simp only: fl_01 x_def [symmetric])
qed

subsection \<open>Ranking\<close>

lemma indexOf_absent: "x \<notin> set xs \<Longrightarrow> indexOf xs x = - 1"
  by (induction xs) (auto simp: Let_def)

lemma indexOf_first:
  assumes "i < length xs" and "xs ! i = x" and "\<forall>j<i. xs ! j \<noteq> x"
  shows "indexOf xs x = int i"
  using assms
proof (induction xs arbitrary: i)
  case Nil
  then show ?case by simp
next
  case (Cons y ys)
  show ?case
  proof (cases i)
    case 0
    with Cons.prems show ?thesis by simp
  next
    case (Suc k)
    with Cons.prems have "k < length ys" and "ys ! k = x" and "\<forall>j<k. ys ! j \<noteq> x" and "y \<noteq> x"
      by auto
    from Cons.IH [OF this(1-3)] \<open>y \<noteq> x\<close> Suc show ?thesis
      by (simp add: Let_def)
  qed
qed

lemma tok_seed: "split_ws (toLowerCase ''Know thyself'') = [''know'', ''thyself'']"
  by code_simp

lemma tok_cand: "split_ws (toLowerCase ''know what you know'') = [''know'', ''what'', ''you'', ''know'']"
  by code_simp

lemma tok_same: "split_ws (toLowerCase ''same words'') = [''same'', ''words'']"
  by code_simp

lemma tok_Same: "split_ws (toLowerCase ''Same words'') = [''same'', ''words'']"
  by code_simp

lemma tok_other: "split_ws (toLowerCase ''other'') = [''other'']"
  by code_simp

lemma map_snd_enumerate: "map snd (enumerate n xs) = xs"
  by (simp add: enumerate_eq_zip)

lemma count_list_filter: "count_list (filter P xs) x = (if P x then count_list xs x else 0)"
  by (induction xs) auto

lemma length_filter_sum_count:
  "length (filter (\<lambda>w. w \<in> A) xs) = (\<Sum>w\<in>A \<inter> set xs. count_list xs w)"
proof -
  have "length (filter (\<lambda>w. w \<in> A) xs)
      = sum (count_list (filter (\<lambda>w. w \<in> A) xs)) (set (filter (\<lambda>w. w \<in> A) xs))"
    by (rule sum_count_set [symmetric]) simp_all
  also have "set (filter (\<lambda>w. w \<in> A) xs) = A \<inter> set xs"
    by auto
  also have "sum (count_list (filter (\<lambda>w. w \<in> A) xs)) (A \<inter> set xs)
      = (\<Sum>w\<in>A \<inter> set xs. count_list xs w)"
    by (rule sum.cong) (simp_all add: count_list_filter)
  finally show ?thesis .
qed

lemma split_ws_nonempty: "split_ws str \<noteq> []"
  by (induction str rule: split_ws.induct) (auto split: list.splits)

lemma seed_neighbors_Inr_iff:
  "(seed_neighbors callee st seed = Inr ns)
     = (neighbors st (quote_id seed) = Some ns
        \<or> (neighbors st (quote_id seed) = None \<and> quote_id seed \<notin> set object_prototype_names \<and> ns = []))"
  by (auto simp: seed_neighbors_def split: option.splits)

lemma seed_neighbors_Inl:
  assumes "neighbors st (quote_id seed) = None" and "quote_id seed \<in> set object_prototype_names"
  shows "seed_neighbors callee st seed = Inl (Error (''neighbors.'' @ callee @ '' is not a function''))"
  using assms by (simp add: seed_neighbors_def)

lemma score_Inr:
  assumes "seed_neighbors ''indexOf'' st seed = Inr ns"
  shows "score st seed c r = Inr (score_of ns seed c r)"
  using assms by (simp add: score_def)

lemma score_of_rounded: "\<exists>v. score_of ns seed c r = fl v"
  by (simp add: score_of_def Let_def fadd_def) blast

lemma collect_Inr: "collect (map (\<lambda>x. Inr (f x)) xs) = Inr (map f xs)"
  by (induction xs) simp_all

lemma collect_Inl: "xs \<noteq> [] \<Longrightarrow> collect (map (\<lambda>x. Inl err) xs) = Inl err"
  by (cases xs) simp_all

lemma ranked_scores_descending:
  "sorted_wrt (\<lambda>a b. a \<ge> b) (map snd (sort_key (\<lambda>item. - snd item) (xs :: ('a \<times> rat) list)))"
proof -
  have "sorted (map (\<lambda>item. - snd item) (sort_key (\<lambda>item. - snd item) xs))"
    by (rule sorted_sort_key)
  then show ?thesis
    by (simp add: sorted_wrt_map)
qed

lemma rankCandidates_Inr:
  assumes "seed_neighbors ''indexOf'' st seed = Inr ns"
  shows "rankCandidates st random cands seed
           = Inr (map fst (sort_key (\<lambda>item. - snd item)
                   (map (\<lambda>ic. (snd ic, score_of ns seed (snd ic) (random (fst ic)))) (enumerate 0 cands))))"
proof -
  have "map (\<lambda>ic. case score st seed (snd ic) (random (fst ic)) of
                               Inl err \<Rightarrow> Inl err
                             | Inr sc \<Rightarrow> Inr (snd ic, sc)) (enumerate 0 cands)
      = map (\<lambda>ic. Inr (snd ic, score_of ns seed (snd ic) (random (fst ic)))) (enumerate 0 cands)"
    by (simp add: score_Inr [OF assms])
  then show ?thesis
    by (simp only: rankCandidates_def collect_Inr sum.case)
qed

lemma rankCandidates_Inl:
  assumes "seed_neighbors ''indexOf'' st seed = Inl err" and "cands \<noteq> []"
  shows "rankCandidates st random cands seed = Inl err"
proof -
  have m: "map (\<lambda>ic. case score st seed (snd ic) (random (fst ic)) of
                               Inl err \<Rightarrow> Inl err
                             | Inr sc \<Rightarrow> Inr (snd ic, sc)) (enumerate 0 cands)
      = map (\<lambda>ic. Inl err) (enumerate 0 cands)"
    by (simp add: score_def assms(1))
  have "enumerate 0 cands \<noteq> []"
    using assms(2) by (simp add: enumerate_eq_zip)
  then have "collect (map (\<lambda>ic. Inl err) (enumerate 0 cands)) = (Inl err :: error + (quote \<times> rat) list)"
    by (rule collect_Inl)
  then show ?thesis
    by (simp only: rankCandidates_def m sum.case)
qed

lemma rankCandidates_order:
  assumes "seed_neighbors ''indexOf'' st seed = Inr ns"
  shows "\<exists>ranked scores. rankCandidates st random cands seed = Inr ranked
           \<and> mset ranked = mset cands
           \<and> length scores = length cands \<and> sorted_wrt (\<lambda>a b. a \<ge> b) scores
           \<and> mset (zip ranked scores)
               = mset (map (\<lambda>ic. (snd ic, score_of ns seed (snd ic) (random (fst ic)))) (enumerate 0 cands))"
proof -
  let ?scored = "map (\<lambda>ic. (snd ic, score_of ns seed (snd ic) (random (fst ic)))) (enumerate 0 cands)"
  let ?sorted = "sort_key (\<lambda>item. - snd item) ?scored"
  have r: "rankCandidates st random cands seed = Inr (map fst ?sorted)"
    using assms by (rule rankCandidates_Inr)
  have "mset (map fst ?sorted) = mset (map fst ?scored)"
    by (simp add: multiset.map_comp)
  also have "map fst ?scored = cands"
    by (simp add: comp_def map_snd_enumerate)
  finally have perm: "mset (map fst ?sorted) = mset cands" .
  have len: "length (map snd ?sorted) = length cands"
    by simp
  have desc: "sorted_wrt (\<lambda>a b. a \<ge> b) (map snd ?sorted)"
    by (rule ranked_scores_descending)
  have "zip (map fst ?sorted) (map snd ?sorted) = ?sorted"
    by (simp add: zip_map_fst_snd)
  then have pairs: "mset (zip (map fst ?sorted) (map snd ?sorted)) = mset ?scored"
    by (simp only: mset_sort)
  from r perm len desc pairs show ?thesis
    by blast
qed

lemma fl_1_3: "fl (1 / 3) = 6004799503160661 / 18014398509481984"
  using fl_eval [of "1 / 3" 54] by (simp add: round_even_def Let_def floor_divide_numeral_rat)

lemma fl_1_5: "fl (1 / 5) = 3602879701896397 / 18014398509481984"
  using fl_eval [of "1 / 5" 55] by (simp add: round_even_def Let_def floor_divide_numeral_rat)

lemma fl_d03: "fl (5404319552844595 / 18014398509481984) = 5404319552844595 / 18014398509481984"
  using fl_eval [of "5404319552844595 / 18014398509481984" 54]
  by (simp add: round_even_def Let_def floor_divide_numeral_rat)

lemma fl_d03_half: "fl (5404319552844595 / 36028797018963968) = 5404319552844595 / 36028797018963968"
  using fl_eval [of "5404319552844595 / 36028797018963968" 55]
  by (simp add: round_even_def Let_def floor_divide_numeral_rat)

lemma fl_d01: "fl (3602879701896397 / 36028797018963968) = 3602879701896397 / 36028797018963968"
  using fl_eval [of "3602879701896397 / 36028797018963968" 56]
  by (simp add: round_even_def Let_def floor_divide_numeral_rat)

lemma fl_d02: "fl (3602879701896397 / 18014398509481984) = 3602879701896397 / 18014398509481984"
  using fl_eval [of "3602879701896397 / 18014398509481984" 55]
  by (simp add: round_even_def Let_def floor_divide_numeral_rat)

lemma fl_third_of_d03:
  "fl (32451855365842669675915850477295 / 324518553658426726783156020576256)
     = 7205759403792793 / 72057594037927936"
  using fl_eval [of "32451855365842669675915850477295 / 324518553658426726783156020576256" 56]
  by (simp add: round_even_def Let_def floor_divide_numeral_rat)

lemma fl_below_d01: "fl (7205759403792793 / 72057594037927936) = 7205759403792793 / 72057594037927936"
  using fl_eval [of "7205759403792793 / 72057594037927936" 56]
  by (simp add: round_even_def Let_def floor_divide_numeral_rat)

lemma fl_tiny:
  "fl (3602879701896397 / 162259276829213363391578010288128)
     = 3602879701896397 / 162259276829213363391578010288128"
  using fl_eval [of "3602879701896397 / 162259276829213363391578010288128" 108]
  by (simp add: round_even_def Let_def floor_divide_numeral_rat)

lemma fl_d03_plus_tiny:
  "fl (48677783048764010818913254034637 / 162259276829213363391578010288128)
     = 5404319552844595 / 18014398509481984"
  using fl_eval [of "48677783048764010818913254034637 / 162259276829213363391578010288128" 54]
  by (simp add: round_even_def Let_def floor_divide_numeral_rat)

lemma fl_d02_plus_d01:
  "fl (10808639105689191 / 36028797018963968) = 1351079888211149 / 4503599627370496"
  using fl_eval [of "10808639105689191 / 36028797018963968" 54]
  by (simp add: round_even_def Let_def floor_divide_numeral_rat)

lemma fl_above_d03: "fl (1351079888211149 / 4503599627370496) = 1351079888211149 / 4503599627370496"
  using fl_eval [of "1351079888211149 / 4503599627370496" 54]
  by (simp add: round_even_def Let_def floor_divide_numeral_rat)

lemmas fl_values = fl_0 fl_1 fl_half fl_03 fl_01 fl_1_3 fl_1_5 fl_d03 fl_d03_half fl_d01 fl_d02
  fl_third_of_d03 fl_below_d01 fl_tiny fl_d03_plus_tiny fl_d02_plus_d01 fl_above_d03

lemmas fl_ops = fadd_def fsub_def fmul_def fdiv_def

lemma score_of_example_code:
  "score_of [] ex_seed ex_cand 0 = 5404319552844595 / 36028797018963968"
  by (simp add: score_of_def ex_seed_def ex_cand_def example_quote_def tok_seed tok_cand
      card_insert_if fl_ops fl_values)

lemma score_of_rank_a:
  "score_of [''n1'', ''n2'', ''n3'', ''n4'', ''b''] rank_seed rank_a (1 / 2 ^ 52)
     = 5404319552844595 / 18014398509481984"
  by (simp add: score_of_def rank_seed_def rank_a_def example_quote_def tok_same tok_Same
      card_insert_if fl_ops fl_values)

lemma score_of_rank_b:
  "score_of [''n1'', ''n2'', ''n3'', ''n4'', ''b''] rank_seed rank_b 0
     = 1351079888211149 / 4503599627370496"
  by (simp add: score_of_def rank_seed_def rank_b_def example_quote_def tok_same tok_other
      card_insert_if fl_ops fl_values)

text \<open>
  Against claim C5 as stated: the lexical term of the code counts the candidate's tokens with
  their repetitions, so it differs from the quotient of set sizes. Seed \<open>Know thyself\<close>,
  candidate \<open>know what you know\<close>, no neighbors, same author and book, \<open>Math.random()\<close>
  returning 0: the code scores 0.15 (2/4 of 0.3), the formula of the claim
  0.09999999999999999 (1/3 of 0.3).
\<close>

theorem score_differs_from_spec:
  "score (example_app [ex_seed, ex_cand] Map.empty []) ex_seed ex_cand 0
     = Inr (5404319552844595 / 36028797018963968)
   \<and> spec_score (example_app [ex_seed, ex_cand] Map.empty []) ex_seed ex_cand 0
     = Inr (7205759403792793 / 72057594037927936)"
proof -
  have "seed_neighbors ''indexOf'' (example_app [ex_seed, ex_cand] Map.empty []) ex_seed = Inr []"
    by (simp add: seed_neighbors_def example_app_def ex_seed_def example_quote_def
        object_prototype_names_def)
  then have "score (example_app [ex_seed, ex_cand] Map.empty []) ex_seed ex_cand 0
     = Inr (5404319552844595 / 36028797018963968)"
    and "spec_score (example_app [ex_seed, ex_cand] Map.empty []) ex_seed ex_cand 0
     = Inr (7205759403792793 / 72057594037927936)"
    by (simp add: score_def score_of_example_code,
        simp add: spec_score_def ex_seed_def ex_cand_def
        example_quote_def tok_seed tok_cand card_insert_if fl_ops fl_values)
  then show ?thesis
    by (simp only: simp_thms)
qed

text \<open>
  Claim C5, amended. For every seed whose neighbor list can be read (the neighbor mapping
  has the seed's id as a key, or the id is not the name of a property that every object
  inherits; otherwise the ranker throws a \<open>TypeError\<close>) and every candidate, the score is the
  sum, in the arithmetic of JavaScript numbers and added in this order, of: the graph term
  (N - i) / N * 0.5 when the candidate's id first occurs at position i of the N listed
  neighbors of the seed, and nothing when it does not occur; the lexical term, the number of
  the candidate's lower-cased whitespace tokens, counted with repetition, that occur among
  the seed's tokens, divided by the larger of the number of distinct seed tokens and the
  number of candidate tokens counted with repetition, times 0.3; 0.1 for a differing author
  and 0.1 for a differing book title; and 0.1 times the value of \<open>Math.random()\<close>, a product
  that lies in [0, 0.1). No divisor is zero. The ranking is a rearrangement of the candidates
  in descending order of score; the comparator \<open>b.score - a.score\<close> has the sign of the
  exact difference.
\<close>

theorem ranker_score_and_order:
  assumes "neighbors st (quote_id seed) = Some ns"
    and "i < length ns" and "ns ! i = quote_id cin" and "\<forall>j<i. ns ! j \<noteq> quote_id cin"
    and "seed_neighbors ''indexOf'' st2 seed2 = Inr ns2" and "quote_id cout \<notin> set ns2"
    and "seed_neighbors ''indexOf'' st3 seed3 = Inr ns3"
    and "0 \<le> r" and "r \<le> 1 - 1 / 2 ^ 53"
    and "neighbors st4 (quote_id seed4) = None" and "quote_id seed4 \<in> set object_prototype_names"
  shows "score st seed cin x =
           Inr (let graph = fmul (fdiv (fsub (of_nat (length ns)) (of_nat i)) (of_nat (length ns))) (fl (5 / 10));
                    lexical = fmul (fdiv (of_nat (length (filter (\<lambda>w. w \<in> set (split_ws (toLowerCase (quote_text seed))))
                                                           (split_ws (toLowerCase (quote_text cin))))))
                                         (of_nat (max (card (set (split_ws (toLowerCase (quote_text seed)))))
                                                      (length (split_ws (toLowerCase (quote_text cin)))))))
                                   (fl (3 / 10));
                    sum2 = fadd (fadd 0 graph) lexical;
                    sum3 = (if author cin \<noteq> author seed then fadd sum2 (fl (1 / 10)) else sum2);
                    sum4 = (if book_title cin \<noteq> book_title seed then fadd sum3 (fl (1 / 10)) else sum3)
                in fadd sum4 (fmul x (fl (1 / 10))))
       \<and> score st2 seed2 cout x2 =
           Inr (let lexical = fmul (fdiv (of_nat (length (filter (\<lambda>w. w \<in> set (split_ws (toLowerCase (quote_text seed2))))
                                                           (split_ws (toLowerCase (quote_text cout))))))
                                         (of_nat (max (card (set (split_ws (toLowerCase (quote_text seed2)))))
                                                      (length (split_ws (toLowerCase (quote_text cout)))))))
                                   (fl (3 / 10));
                    sum2 = fadd 0 lexical;
                    sum3 = (if author cout \<noteq> author seed2 then fadd sum2 (fl (1 / 10)) else sum2);
                    sum4 = (if book_title cout \<noteq> book_title seed2 then fadd sum3 (fl (1 / 10)) else sum3)
                in fadd sum4 (fmul x2 (fl (1 / 10))))
       \<and> length (filter (\<lambda>w. w \<in> set seedWords) candidateWords)
           = (\<Sum>w\<in>set seedWords \<inter> set candidateWords. count_list candidateWords w)
       \<and> 0 < length ns \<and> 0 < max (card (set seedWords)) (length (split_ws str))
       \<and> 0 \<le> fmul r (fl (1 / 10)) \<and> fmul r (fl (1 / 10)) < fl (1 / 10)
       \<and> score st3 seed3 c x3 = Inr (score_of ns3 seed3 c x3)
       \<and> (\<exists>ranked scores. rankCandidates st3 random cands seed3 = Inr ranked
             \<and> mset ranked = mset cands
             \<and> length scores = length cands \<and> sorted_wrt (\<lambda>a b. a \<ge> b) scores
             \<and> mset (zip ranked scores)
                 = mset (map (\<lambda>ic. (snd ic, score_of ns3 seed3 (snd ic) (random (fst ic)))) (enumerate 0 cands)))
       \<and> (fsub (score_of ns3 seed3 b rb) (score_of ns3 seed3 a ra) < 0)
           = (score_of ns3 seed3 b rb < score_of ns3 seed3 a ra)
       \<and> (fsub (score_of ns3 seed3 b rb) (score_of ns3 seed3 a ra) = 0)
           = (score_of ns3 seed3 b rb = score_of ns3 seed3 a ra)
       \<and> score st4 seed4 c4 x4 = Inl (Error ''neighbors.indexOf is not a function'')
       \<and> rankCandidates st4 random4 (c4 # cands4) seed4 = Inl (Error ''neighbors.indexOf is not a function'')
       \<and> rankCandidates st4 random4 [] seed4 = Inr []
       \<and> (seed_neighbors callee st5 seed5 = Inr ns5)
           = (neighbors st5 (quote_id seed5) = Some ns5
              \<or> (neighbors st5 (quote_id seed5) = None \<and> quote_id seed5 \<notin> set object_prototype_names
                  \<and> ns5 = []))"
proof -
  have inside: "indexOf ns (quote_id cin) = int i"
    using assms(2-4) by (rule indexOf_first)
  have outside: "indexOf ns2 (quote_id cout) = - 1"
    using assms(6) by (rule indexOf_absent)
  have read: "seed_neighbors ''indexOf'' st seed = Inr ns"
    using assms(1) by (simp add: seed_neighbors_def)
  have 1: "score st seed cin x =
           Inr (let graph = fmul (fdiv (fsub (of_nat (length ns)) (of_nat i)) (of_nat (length ns))) (fl (5 / 10));
                    lexical = fmul (fdiv (of_nat (length (filter (\<lambda>w. w \<in> set (split_ws (toLowerCase (quote_text seed))))
                                                           (split_ws (toLowerCase (quote_text cin))))))
                                         (of_nat (max (card (set (split_ws (toLowerCase (quote_text seed)))))
                                                      (length (split_ws (toLowerCase (quote_text cin)))))))
                                   (fl (3 / 10));
                    sum2 = fadd (fadd 0 graph) lexical;
                    sum3 = (if author cin \<noteq> author seed then fadd sum2 (fl (1 / 10)) else sum2);
                    sum4 = (if book_title cin \<noteq> book_title seed then fadd sum3 (fl (1 / 10)) else sum3)
                in fadd sum4 (fmul x (fl (1 / 10))))"
    by (simp add: score_Inr [OF read] score_of_def inside Let_def)
  have 2: "score st2 seed2 cout x2 =
           Inr (let lexical = fmul (fdiv (of_nat (length (filter (\<lambda>w. w \<in> set (split_ws (toLowerCase (quote_text seed2))))
                                                           (split_ws (toLowerCase (quote_text cout))))))
                                         (of_nat (max (card (set (split_ws (toLowerCase (quote_text seed2)))))
                                                      (length (split_ws (toLowerCase (quote_text cout)))))))
                                   (fl (3 / 10));
                    sum2 = fadd 0 lexical;
                    sum3 = (if author cout \<noteq> author seed2 then fadd sum2 (fl (1 / 10)) else sum2);
                    sum4 = (if book_title cout \<noteq> book_title seed2 then fadd sum3 (fl (1 / 10)) else sum3)
                in fadd sum4 (fmul x2 (fl (1 / 10))))"
    by (simp add: score_Inr [OF assms(5)] score_of_def outside Let_def)
  have 3: "length (filter (\<lambda>w. w \<in> set seedWords) candidateWords)
           = (\<Sum>w\<in>set seedWords \<inter> set candidateWords. count_list candidateWords w)"
    by (rule length_filter_sum_count)
  have divisors: "0 < length ns \<and> 0 < max (card (set seedWords)) (length (split_ws str))"
    using assms(2) split_ws_nonempty [of str] by (auto simp: less_max_iff_disj)
  have 4: "0 \<le> fmul r (fl (1 / 10)) \<and> fmul r (fl (1 / 10)) < fl (1 / 10)"
    unfolding fmul_def using assms(8,9) by (rule fl_jitter_range)
  have 5: "score st3 seed3 c x3 = Inr (score_of ns3 seed3 c x3)"
    using assms(7) by (rule score_Inr)
  note 6 = rankCandidates_order [OF assms(7), of random cands]
  obtain va vb where v: "score_of ns3 seed3 a ra = fl va" "score_of ns3 seed3 b rb = fl vb"
    using score_of_rounded by blast
  have 7: "(fsub (score_of ns3 seed3 b rb) (score_of ns3 seed3 a ra) < 0)
           = (score_of ns3 seed3 b rb < score_of ns3 seed3 a ra)
       \<and> (fsub (score_of ns3 seed3 b rb) (score_of ns3 seed3 a ra) = 0)
           = (score_of ns3 seed3 b rb = score_of ns3 seed3 a ra)"
    unfolding fsub_def v by (rule fl_difference_sign)
  have thrown: "seed_neighbors ''indexOf'' st4 seed4 = Inl (Error (''neighbors.'' @ ''indexOf'' @ '' is not a function''))"
    using assms(10,11) by (rule seed_neighbors_Inl)
  have 8: "score st4 seed4 c4 x4 = Inl (Error ''neighbors.indexOf is not a function'')"
    using thrown by (simp add: score_def)
  have 9: "rankCandidates st4 random4 (c4 # cands4) seed4 = Inl (Error ''neighbors.indexOf is not a function'')"
    using rankCandidates_Inl [OF thrown, of "c4 # cands4" random4] by simp
  have 10: "rankCandidates st4 random4 [] seed4 = Inr []"
    by (simp add: rankCandidates_def)
  note 11 = seed_neighbors_Inr_iff [of callee st5 seed5 ns5]
  from 1 2 3 divisors 4 5 6 7 8 9 10 11 show ?thesis
    by (simp only: simp_thms)
qed

lemma two_sorted_pairs:
  assumes "mset ranked = mset [ca, cb]" and "length scores = 2"
    and "sorted_wrt (\<lambda>a b. a \<ge> b) scores"
    and "mset (zip ranked scores) = mset [(ca, sa), (cb, sb :: rat)]" and "sa < sb"
  shows "ranked = [cb, ca]"
proof -
  have "length ranked = 2"
    using assms(1) by (metis length_Cons list.size(3) mset_eq_length numeral_2_eq_2)
  then obtain x y where ranked: "ranked = [x, y]"
    by (auto simp: length_Suc_conv numeral_2_eq_2)
  obtain p q where scores: "scores = [p, q]"
    using assms(2) by (auto simp: length_Suc_conv numeral_2_eq_2)
  have pq: "q \<le> p"
    using assms(3) scores by simp
  have "{#(x, p), (y, q)#} = {#(ca, sa), (cb, sb)#}"
    using assms(4) ranked scores by simp
  then have "(x, p) = (ca, sa) \<and> (y, q) = (cb, sb) \<or> (x, p) = (cb, sb) \<and> (y, q) = (ca, sa)"
    by (auto simp: add_eq_conv_ex)
  with pq assms(5) ranked show ?thesis
    by auto
qed

theorem ranker_score_and_order_witness:
  "score rank_app rank_seed rank_b 0 = Inr (1351079888211149 / 4503599627370496)
   \<and> score rank_app rank_seed rank_a (1 / 2 ^ 52) = Inr (5404319552844595 / 18014398509481984)
   \<and> rankCandidates rank_app rank_random [rank_a, rank_b] rank_seed = Inr [rank_b, rank_a]
   \<and> score rank_app (example_quote ''constructor'' ''same words'') rank_a 0
       = Inl (Error ''neighbors.indexOf is not a function'')"
proof -
  let ?ns = "[''n1'', ''n2'', ''n3'', ''n4'', ''b'']"
  let ?c = "example_quote ''constructor'' ''same words''"
  have 1: "neighbors rank_app (quote_id rank_seed) = Some ?ns"
    by (simp add: rank_app_def example_app_def rank_seed_def example_quote_def)
  have 2: "4 < length ?ns"
    by simp
  have 3: "?ns ! 4 = quote_id rank_b"
    by (simp add: rank_b_def)
  have 4: "\<forall>j<4. ?ns ! j \<noteq> quote_id rank_b"
    by (auto simp: rank_b_def nth_Cons')
  have 5: "seed_neighbors ''indexOf'' rank_app rank_seed = Inr ?ns"
    using 1 by (simp add: seed_neighbors_def)
  have 6: "quote_id rank_a \<notin> set ?ns"
    by (simp add: rank_a_def example_quote_def)
  have 8: "(0::rat) \<le> 1 / 2 ^ 52" and 9: "(1::rat) / 2 ^ 52 \<le> 1 - 1 / 2 ^ 53"
    by simp_all
  have 10: "neighbors rank_app (quote_id ?c) = None"
    by (simp add: rank_app_def example_app_def example_quote_def)
  have 11: "quote_id ?c \<in> set object_prototype_names"
    by (simp add: example_quote_def object_prototype_names_def)
  note T = ranker_score_and_order [OF 1 2 3 4 5 6 5 8 9 10 11,
      where x = 0 and ?x2.0 = "1 / 2 ^ 52" and random = rank_random and cands = "[rank_a, rank_b]"
        and ?c4.0 = rank_a and ?x4.0 = 0]
  have b: "score rank_app rank_seed rank_b 0 = Inr (1351079888211149 / 4503599627370496)"
    using T [THEN conjunct1] by (simp add: rank_seed_def rank_b_def example_quote_def tok_same tok_other
        card_insert_if fl_ops fl_values Let_def)
  have a: "score rank_app rank_seed rank_a (1 / 2 ^ 52) = Inr (5404319552844595 / 18014398509481984)"
    using T [THEN conjunct2, THEN conjunct1] by (simp add: rank_seed_def rank_a_def example_quote_def tok_same tok_Same
        card_insert_if fl_ops fl_values Let_def)
  obtain ranked scores where r: "rankCandidates rank_app rank_random [rank_a, rank_b] rank_seed = Inr ranked"
    and p: "mset ranked = mset [rank_a, rank_b]"
    and l: "length scores = length [rank_a, rank_b]" and d: "sorted_wrt (\<lambda>a b. a \<ge> b) scores"
    and z: "mset (zip ranked scores)
              = mset (map (\<lambda>ic. (snd ic, score_of ?ns rank_seed (snd ic) (rank_random (fst ic))))
                       (enumerate 0 [rank_a, rank_b]))"
    using T [THEN conjunct2, THEN conjunct2, THEN conjunct2, THEN conjunct2, THEN conjunct2, THEN conjunct2, THEN conjunct2, THEN conjunct2, THEN conjunct1] by blast
  have z': "mset (zip ranked scores)
      = mset [(rank_a, 5404319552844595 / 18014398509481984), (rank_b, 1351079888211149 / 4503599627370496)]"
    using z score_of_rank_a score_of_rank_b by (simp add: rank_random_def)
  have "ranked = [rank_b, rank_a]"
    using p _ d z'
  proof (rule two_sorted_pairs)
    show "length scores = 2" using l by simp
    show "(5404319552844595 / 18014398509481984 :: rat) < 1351079888211149 / 4503599627370496" by simp
  qed
  with r have k: "rankCandidates rank_app rank_random [rank_a, rank_b] rank_seed = Inr [rank_b, rank_a]"
    by simp
  have e: "score rank_app ?c rank_a 0 = Inl (Error ''neighbors.indexOf is not a function'')"
    using T [THEN conjunct2, THEN conjunct2, THEN conjunct2, THEN conjunct2, THEN conjunct2, THEN conjunct2, THEN conjunct2, THEN conjunct2, THEN conjunct2, THEN conjunct2, THEN conjunct2, THEN conjunct1] .
  from b a k e show ?thesis
    by (simp only: simp_thms)
qed


subsection \<open>The recency set\<close>

lemma length_set_add: "length (set_add x xs) \<le> Suc (length xs)"
  by (simp add: set_add_def)

lemma length_set_delete_hd: "length (set_delete y (y # ys)) \<le> length ys"
  by (simp add: set_delete_def)

lemma set_delete_hd_distinct: "distinct (y # ys) \<Longrightarrow> set_delete y (y # ys) = ys"
  by (simp add: set_delete_def)

lemma acceptSuggestion_bound:
  assumes "length (recentPicks st) \<le> 20"
  shows "length (recentPicks (acceptSuggestion st)) \<le> 20"
proof (cases "currentSuggestion st")
  case None
  with assms show ?thesis by (simp add: acceptSuggestion_def)
next
  case (Some cur)
  let ?p1 = "set_add (quote_id (cs_quote cur)) (recentPicks st)"
  show ?thesis
  proof (cases "length ?p1 > 20")
    case False
    with Some show ?thesis by (simp add: acceptSuggestion_def Let_def)
  next
    case True
    then obtain oldest rest where p1: "?p1 = oldest # rest"
      by (cases ?p1) auto
    have "length ?p1 \<le> 21"
      using length_set_add [of "quote_id (cs_quote cur)" "recentPicks st"] assms by simp
    with p1 have "length rest \<le> 20" by simp
    moreover have "length (set_delete oldest (oldest # rest)) \<le> length rest"
      by (rule length_set_delete_hd)
    ultimately show ?thesis
      using Some True p1 by (simp add: acceptSuggestion_def Let_def)
  qed
qed

lemma acceptSuggestion_evicts_oldest:
  assumes "currentSuggestion st = Some cur"
    and "quote_id (cs_quote cur) \<notin> set (recentPicks st)"
    and "length (recentPicks st) = 20"
    and "distinct (recentPicks st)"
  shows "recentPicks (acceptSuggestion st) = tl (recentPicks st) @ [quote_id (cs_quote cur)]"
proof -
  obtain oldest rest where picks: "recentPicks st = oldest # rest"
    using assms(3) by (cases "recentPicks st") auto
  have p1: "set_add (quote_id (cs_quote cur)) (recentPicks st) = oldest # (rest @ [quote_id (cs_quote cur)])"
    using assms(2) picks by (simp add: set_add_def)
  have "distinct (oldest # (rest @ [quote_id (cs_quote cur)]))"
    using assms(2,4) picks by auto
  then have "set_delete oldest (oldest # (rest @ [quote_id (cs_quote cur)])) = rest @ [quote_id (cs_quote cur)]"
    by (rule set_delete_hd_distinct)
  then show ?thesis
    using assms(1,3) picks p1 by (simp add: acceptSuggestion_def Let_def)
qed

lemma recentPicks_resume:
  "recentPicks (fst (snd (getAIRationale_resume JP r k st))) = recentPicks st"
  by (simp add: getAIRationale_resume_def split: sum.splits error.splits)

lemma step_bound:
  assumes "length (recentPicks (mapkeeper s)) \<le> 20"
  shows "length (recentPicks (mapkeeper (step JP a s))) \<le> 20"
  using assms
  by (cases a) (simp_all add: acceptSuggestion_bound recentPicks_resume split: started.splits)

lemma run_bound:
  assumes "length (recentPicks (mapkeeper s)) \<le> 20"
  shows "length (recentPicks (mapkeeper (run JP acts s))) \<le> 20"
  using assms unfolding run_def
  by (induction acts arbitrary: s) (simp_all add: step_bound)

text \<open>
  Claim C8. The recency set never holds more than 20 ids: every accept keeps the bound, and
  so does every session that starts within it, whatever calls are pending; when an accept
  inserts a new id into a set of 20, the oldest member in insertion order is evicted.
\<close>

theorem recency_set_bounded:
  assumes "length (recentPicks st) \<le> 20"
    and "currentSuggestion st20 = Some cur"
    and "quote_id (cs_quote cur) \<notin> set (recentPicks st20)"
    and "length (recentPicks st20) = 20"
    and "distinct (recentPicks st20)"
  shows "length (recentPicks (acceptSuggestion st)) \<le> 20
       \<and> length (recentPicks (mapkeeper (run JSON_parse acts \<lparr>mapkeeper = st, pending = calls\<rparr>))) \<le> 20
       \<and> recentPicks (acceptSuggestion st20) = tl (recentPicks st20) @ [quote_id (cs_quote cur)]"
  using assms
  by (simp add: acceptSuggestion_bound run_bound acceptSuggestion_evicts_oldest)

theorem recency_set_bounded_witness:
  "length (recentPicks (acceptSuggestion (example_app [] Map.empty []))) \<le> 20
       \<and> length (recentPicks (mapkeeper (run (\<lambda>s. Throws ''bad'') [Show (example_current ''z''), Accept]
              \<lparr>mapkeeper = example_app [] Map.empty [], pending = []\<rparr>))) \<le> 20
       \<and> recentPicks (acceptSuggestion ((example_app [] Map.empty twenty_ids)\<lparr>currentSuggestion := Some (example_current ''z'')\<rparr>))
           = tl (recentPicks ((example_app [] Map.empty twenty_ids)\<lparr>currentSuggestion := Some (example_current ''z'')\<rparr>))
               @ [quote_id (cs_quote (example_current ''z''))]"
  by (rule recency_set_bounded)
    (simp_all add: example_app_def example_current_def example_quote_def twenty_ids_def)

subsection \<open>The path of a route narration\<close>

lemma split_nonempty: "split sep s \<noteq> []"
  by (induction s) (auto split: list.splits)

lemma split_no_sep: "sep \<notin> set s \<Longrightarrow> split sep s = [s]"
  by (induction s) auto

lemma split_append_sep:
  "sep \<notin> set x \<Longrightarrow> split sep (x @ sep # rest) = x # split sep rest"
  by (induction x) auto

lemma split_join:
  assumes "xs \<noteq> []" and "\<forall>x\<in>set xs. sep \<notin> set x"
  shows "split sep (join [sep] xs) = xs"
  using assms
proof (induction xs rule: induct_list012)
  case 1
  then show ?case by simp
next
  case (2 x)
  then show ?case by (simp add: split_no_sep)
next
  case (3 x y ys)
  then show ?case by (simp add: split_append_sep)
qed

lemma length_split: "length (split sep s) = Suc (count_list s sep)"
proof (induction s)
  case Nil
  then show ?case by simp
next
  case (Cons c cs)
  obtain w ws where "split sep cs = w # ws"
    using split_nonempty [of sep cs] by (cases "split sep cs") auto
  with Cons show ?case by simp
qed

lemma count_list_append: "count_list (xs @ ys) a = count_list xs a + count_list ys a"
  by (induction xs) auto

lemma count_join:
  assumes "xs \<noteq> []"
  shows "Suc (count_list (join [sep] xs) sep) = length xs + sum_list (map (\<lambda>x. count_list x sep) xs)"
  using assms
proof (induction xs rule: induct_list012)
  case 1
  then show ?case by simp
next
  case (2 x)
  then show ?case by simp
next
  case (3 x y ys)
  then show ?case by (simp add: count_list_append)
qed

lemma count_pos_sum:
  assumes "x \<in> set xs" and "sep \<in> set x"
  shows "0 < sum_list (map (\<lambda>x. count_list x sep) xs)"
proof -
  have "0 < count_list x sep"
    using assms(2) by (simp add: count_list_0_iff zero_less_iff_neq_zero)
  moreover have "count_list x sep \<le> sum_list (map (\<lambda>x. count_list x sep) xs)"
    using assms(1) by (simp add: member_le_sum_list)
  ultimately show ?thesis by linarith
qed

lemma split_join_longer:
  assumes "x \<in> set xs" and "sep \<in> set x"
  shows "length xs < length (split sep (join [sep] xs))"
proof -
  have "xs \<noteq> []" using assms(1) by auto
  then have "length (split sep (join [sep] xs)) = length xs + sum_list (map (\<lambda>x. count_list x sep) xs)"
    using count_join [of xs sep] by (simp add: length_split)
  with count_pos_sum [OF assms] show ?thesis by simp
qed

lemma handleRouteLogic_path:
  assumes "fst (handleRouteLogic e b st) = Inr resp"
  shows "route_path b \<noteq> [] \<and> response_path resp = split CHR ''-'' (join ''-'' (map quote_id (route_path b)))"
  using assms
  by (auto simp: handleRouteLogic_def route_miss_def Let_def split_beta
      split: if_splits option.splits sum.splits)

lemma handleRouteLogic_answer:
  assumes "route_path b \<noteq> []"
    and "length (filter (\<lambda>t. now_rate e - 60000 < t)
                 (recorded (rateLimitStore st) (getClientId (route_systemPrompt b)))) < 30"
    and "callOpenAI e = Inr aiResponse"
  shows "fst (handleRouteLogic e b st)
           = Inr \<lparr>response_path = split CHR ''-'' (join ''-'' (map quote_id (route_path b))),
                  narration =
                    (case fst (getFromCache (now_get e)
                                 (getCacheKey ''route'' (join ''-'' (map quote_id (route_path b))) (route_systemPrompt b))
                                 (responseCache st)) of
                       None \<Rightarrow> Narration aiResponse
                     | Some d \<Rightarrow> if truthy d then d else Narration aiResponse)\<rparr>"
  using assms(1,3) checkRateLimit_allowed_eq [OF assms(2)]
  by (simp add: handleRouteLogic_def route_miss_def Let_def split_beta split: option.splits)

lemma round_trip_iff:
  assumes "ids \<noteq> []"
  shows "(split CHR ''-'' (join ''-'' ids) = ids) = (\<forall>x\<in>set ids. CHR ''-'' \<notin> set x)"
proof
  assume same: "split CHR ''-'' (join ''-'' ids) = ids"
  show "\<forall>x\<in>set ids. CHR ''-'' \<notin> set x"
  proof (rule ccontr)
    assume "\<not> (\<forall>x\<in>set ids. CHR ''-'' \<notin> set x)"
    then obtain x where "x \<in> set ids" and "CHR ''-'' \<in> set x"
      by blast
    then have "length ids < length (split CHR ''-'' (join ''-'' ids))"
      by (rule split_join_longer)
    with same show False by simp
  qed
next
  assume "\<forall>x\<in>set ids. CHR ''-'' \<notin> set x"
  with assms show "split CHR ''-'' (join ''-'' ids) = ids"
    by (rule split_join)
qed

text \<open>
  Claim C9. A route narration request with a non-empty path that the rate limiter allows is
  answered, from the cache or by the AI call, and the \<open>path\<close> of the response is the
  \<open>-\<close>-joined ids split again at every \<open>-\<close>. For every request that is answered, that path
  equals the ids of the input quotes if and only if no id contains the character \<open>-\<close>; an
  id that contains it comes back in pieces, so the returned path is longer than the input.
\<close>

theorem route_path_round_trip:
  assumes "route_path b \<noteq> []"
    and "length (filter (\<lambda>t. now_rate e - 60000 < t)
                 (recorded (rateLimitStore st) (getClientId (route_systemPrompt b)))) < 30"
    and "callOpenAI e = Inr aiResponse"
  shows "fst (handleRouteLogic e b st)
           = Inr \<lparr>response_path = split CHR ''-'' (join ''-'' (map quote_id (route_path b))),
                  narration =
                    (case fst (getFromCache (now_get e)
                                 (getCacheKey ''route'' (join ''-'' (map quote_id (route_path b))) (route_systemPrompt b))
                                 (responseCache st)) of
                       None \<Rightarrow> Narration aiResponse
                     | Some d \<Rightarrow> if truthy d then d else Narration aiResponse)\<rparr>
       \<and> (split CHR ''-'' (join ''-'' (map quote_id (route_path b))) = map quote_id (route_path b))
           = (\<forall>q\<in>set (route_path b). CHR ''-'' \<notin> set (quote_id q))
       \<and> ((\<exists>q\<in>set (route_path b). CHR ''-'' \<in> set (quote_id q))
            \<longrightarrow> length (route_path b) < length (split CHR ''-'' (join ''-'' (map quote_id (route_path b)))))
       \<and> (fst (handleRouteLogic e' b' st') = Inr resp
            \<longrightarrow> route_path b' \<noteq> []
              \<and> response_path resp = split CHR ''-'' (join ''-'' (map quote_id (route_path b')))
              \<and> (response_path resp = map quote_id (route_path b'))
                  = (\<forall>q\<in>set (route_path b'). CHR ''-'' \<notin> set (quote_id q))
              \<and> ((\<exists>q\<in>set (route_path b'). CHR ''-'' \<in> set (quote_id q))
                   \<longrightarrow> length (route_path b') < length (response_path resp)))"
proof -
  have iff: "(split CHR ''-'' (join ''-'' (map quote_id (route_path p))) = map quote_id (route_path p))
           = (\<forall>q\<in>set (route_path p). CHR ''-'' \<notin> set (quote_id q))"
    if "route_path p \<noteq> []" for p :: route_body
    using round_trip_iff [of "map quote_id (route_path p)"] that by simp
  have longer: "length (route_path p) < length (split CHR ''-'' (join ''-'' (map quote_id (route_path p))))"
    if "\<exists>q\<in>set (route_path p). CHR ''-'' \<in> set (quote_id q)" for p :: route_body
  proof -
    from that obtain q where "q \<in> set (route_path p)" and dash: "CHR ''-'' \<in> set (quote_id q)"
      by blast
    then have "quote_id q \<in> set (map quote_id (route_path p))" by simp
    from split_join_longer [OF this dash] show ?thesis by simp
  qed
  have answered: "route_path b' \<noteq> []
              \<and> response_path resp = split CHR ''-'' (join ''-'' (map quote_id (route_path b')))
              \<and> (response_path resp = map quote_id (route_path b'))
                  = (\<forall>q\<in>set (route_path b'). CHR ''-'' \<notin> set (quote_id q))
              \<and> ((\<exists>q\<in>set (route_path b'). CHR ''-'' \<in> set (quote_id q))
                   \<longrightarrow> length (route_path b') < length (response_path resp))"
    if "fst (handleRouteLogic e' b' st') = Inr resp"
  proof -
    from handleRouteLogic_path [OF that]
    have ne: "route_path b' \<noteq> []"
      and rp: "response_path resp = split CHR ''-'' (join ''-'' (map quote_id (route_path b')))"
      by simp_all
    from ne rp iff [OF ne] longer [of b'] show ?thesis
      by simp
  qed
  from handleRouteLogic_answer [OF assms] iff [OF assms(1)] longer [of b] answered show ?thesis
    by blast
qed

theorem route_path_round_trip_witness:
  "fst (handleRouteLogic (example_env (Response 200 (Content ''A walk.''))) (example_route [''q-1'', ''q2''])
          \<lparr>rateLimitStore = Map.empty, responseCache = Map.empty\<rparr>)
     = Inr \<lparr>response_path = [''q'', ''1'', ''q2''], narration = Narration ''A walk.''\<rparr>
   \<and> [''q'', ''1'', ''q2''] \<noteq> map quote_id (route_path (example_route [''q-1'', ''q2'']))
   \<and> length (route_path (example_route [''q-1'', ''q2''])) < length [''q'', ''1'', ''q2'']
   \<and> fst (handleRouteLogic (example_env (Response 200 (Content ''A walk.''))) (example_route [''q1'', ''q2''])
          \<lparr>rateLimitStore = Map.empty, responseCache = Map.empty\<rparr>)
     = Inr \<lparr>response_path = map quote_id (route_path (example_route [''q1'', ''q2''])),
            narration = Narration ''A walk.''\<rparr>"
proof -
  let ?e = "example_env (Response 200 (Content ''A walk.''))"
  let ?st = "\<lparr>rateLimitStore = Map.empty, responseCache = Map.empty\<rparr>"
  have ne: "route_path (example_route ids) \<noteq> []" if "ids \<noteq> []" for ids
    using that by (simp add: example_route_def)
  have allowed: "length (filter (\<lambda>t. now_rate ?e - 60000 < t)
                 (recorded (rateLimitStore ?st) (getClientId (route_systemPrompt (example_route ids))))) < 30" for ids
    by (simp add: recorded_def)
  have ai: "callOpenAI ?e = Inr ''A walk.''"
    by (simp add: callOpenAI_def example_env_def ok_def)
  have dashed: "[''q-1'', ''q2''] \<noteq> ([] :: string list)" and plain: "[''q1'', ''q2''] \<noteq> ([] :: string list)"
    by simp_all
  from route_path_round_trip [OF ne [OF dashed] allowed ai] route_path_round_trip [OF ne [OF plain] allowed ai]
  show ?thesis
    by (simp add: example_route_def example_quote_def getFromCache_def)
qed

subsection \<open>The rationale cache of the browser\<close>

lemma getAIRationale_start_hit:
  assumes "cache st (rationale_key st sug) = Some rat"
  shows "getAIRationale_start sug st = Returned rat"
  using assms by (simp add: getAIRationale_start_def)

lemma getAIRationale_hit:
  assumes "cache st (rationale_key st sug) = Some rat"
  shows "getAIRationale JP r seed sug st = (Inr rat, st, [CacheLookup])"
  using assms by (simp add: getAIRationale_def getAIRationale_start_def)

lemma getAIRationale_start_awaiting:
  assumes "getAIRationale_start sug st = Awaiting k"
  shows "k = rationale_key st sug \<and> cache st k = None"
  using assms by (auto simp: getAIRationale_start_def Let_def split: option.splits if_splits)

lemma resume_stores:
  assumes "request_rationale JP r = Inr rat"
  shows "cache (fst (snd (getAIRationale_resume JP r k st))) k = Some rat"
  using assms by (simp add: getAIRationale_resume_def)

lemma resume_keeps_other:
  assumes "k' \<noteq> k"
  shows "cache (fst (snd (getAIRationale_resume JP r k st))) k' = cache st k'"
  using assms by (simp add: getAIRationale_resume_def split: sum.splits error.splits)

lemma resume_keeps_key:
  assumes "cache st k' = Some old"
  shows "\<exists>kept. cache (fst (snd (getAIRationale_resume JP r k st))) k' = Some kept"
  using assms by (simp add: getAIRationale_resume_def split: sum.splits error.splits)

lemma acceptSuggestion_cache: "cache (acceptSuggestion st) = cache st"
  by (simp add: acceptSuggestion_def Let_def split: option.splits)

lemma step_keeps_entry:
  assumes "cache (mapkeeper s) k = Some rat" and "k \<notin> set (pending s)"
  shows "cache (mapkeeper (step JP a s)) k = Some rat \<and> k \<notin> set (pending (step JP a s))"
proof (cases a)
  case (Call seed sug)
  show ?thesis
  proof (cases "getAIRationale_start sug (mapkeeper s)")
    case (Returned result)
    with Call assms show ?thesis by simp
  next
    case (Awaiting key)
    from getAIRationale_start_awaiting [OF this] assms(1) have "key \<noteq> k"
      by auto
    with Call Awaiting assms show ?thesis by simp
  qed
next
  case (Reply n r)
  show ?thesis
  proof (cases "n < length (pending s)")
    case False
    with Reply assms show ?thesis by simp
  next
    case True
    then have "pending s ! n \<in> set (pending s)" by simp
    with assms(2) have other: "k \<noteq> pending s ! n" by auto
    have "k \<notin> set (take n (pending s))" and "k \<notin> set (drop (Suc n) (pending s))"
      using assms(2) by (auto dest: in_set_takeD in_set_dropD)
    with Reply True assms(1) resume_keeps_other [OF other, of JP r "mapkeeper s"] show ?thesis
      by simp
  qed
next
  case (Show cur)
  with assms show ?thesis by simp
next
  case Accept
  with assms show ?thesis by (simp add: acceptSuggestion_cache)
next
  case (Upload qs)
  with assms show ?thesis by simp
next
  case (SaveSettings v)
  with assms show ?thesis by simp
qed

lemma run_keeps_entry:
  assumes "cache (mapkeeper s) k = Some rat" and "k \<notin> set (pending s)"
  shows "cache (mapkeeper (run JP acts s)) k = Some rat \<and> k \<notin> set (pending (run JP acts s))"
  using assms unfolding run_def
proof (induction acts arbitrary: s)
  case Nil
  then show ?case by simp
next
  case (Cons a acts)
  from step_keeps_entry [OF Cons.prems, of JP a]
  have "cache (mapkeeper (step JP a s)) k = Some rat" and "k \<notin> set (pending (step JP a s))"
    by simp_all
  from Cons.IH [OF this] show ?case by simp
qed

lemma step_keeps_key:
  assumes "cache (mapkeeper s) k = Some old"
  shows "\<exists>kept. cache (mapkeeper (step JP a s)) k = Some kept"
  using assms
  by (cases a) (simp_all add: acceptSuggestion_cache resume_keeps_key split: started.splits)

lemma run_keeps_key:
  assumes "cache (mapkeeper s) k = Some old"
  shows "\<exists>kept. cache (mapkeeper (run JP acts s)) k = Some kept"
  using assms unfolding run_def
proof (induction acts arbitrary: s old)
  case Nil
  then show ?case by simp
next
  case (Cons a acts)
  from step_keeps_key [OF Cons.prems, of JP a]
  obtain kept where "cache (mapkeeper (step JP a s)) k = Some kept"
    by blast
  from Cons.IH [OF this] show ?case by simp
qed

lemma rationale_key_cong:
  assumes "quote_id sug' = quote_id sug"
    and "settings_systemPrompt (settings st') = settings_systemPrompt (settings st)"
  shows "rationale_key st' sug' = rationale_key st sug"
  using assms by (simp add: rationale_key_def)

lemma step_settings:
  "settings (mapkeeper (step JP a s)) = (case a of SaveSettings v \<Rightarrow> v | _ \<Rightarrow> settings (mapkeeper s))"
proof (cases a)
  case (Reply n r)
  then show ?thesis
    by (simp add: getAIRationale_resume_def split: sum.splits error.splits)
next
  case Accept
  then show ?thesis
    by (simp add: acceptSuggestion_def Let_def split: option.splits)
qed (simp_all split: started.splits)

text \<open>
  Against claim C10 as stated: two calls for the same suggestion and system prompt start
  before either reply arrives. The first reply stores a Rationale, and a call made then
  returns it; the second reply replaces the entry, and a call made after that returns the
  new Rationale, not the one that was stored first.
\<close>

theorem overlapping_calls_replace_entry:
  "fst (getAIRationale example_parse (NetworkFailure ''offline'') None (example_quote ''q2'' ''second'')
         (mapkeeper (run example_parse overlapping_calls example_start)))
     = Inr default_rationale
   \<and> fst (getAIRationale example_parse (NetworkFailure ''offline'') None (example_quote ''q2'' ''second'')
         (mapkeeper (run example_parse
            (overlapping_calls @ [Reply 0 (Response 200 (Content ''{\"title\":\"Echo\"}''))]) example_start)))
     = Inr echo_rationale
   \<and> default_rationale \<noteq> echo_rationale"
  by (simp add: run_def overlapping_calls_def example_start_def example_app_def example_settings_def
      getAIRationale_def getAIRationale_start_def getAIRationale_resume_def request_rationale_def ok_def
      example_parse_def rationale_of_parsed_def rationale_key_def example_quote_def
      default_rationale_def echo_rationale_def)

text \<open>
  Claim C10, amended. The rationale cache of the browser has no expiry and an entry is never
  removed. Once a Rationale is stored under the key built from the suggestion's id and the
  hash of the system prompt, and no call of \<open>getAIRationale\<close> that computed the same key is
  still waiting for its reply, every later call of the session for the same suggestion id and
  the same system prompt returns that Rationale, whatever happened in between, with the cache
  lookup as its only call (no request is sent); the function reads no clock. (A call that was
  already waiting for its reply replaces the entry when it ends with a parsed reply.)
\<close>

theorem browser_cache_never_expires:
  assumes "cache (mapkeeper s) (rationale_key (mapkeeper s) sug) = Some rat"
    and "rationale_key (mapkeeper s) sug \<notin> set (pending s)"
    and "quote_id sug' = quote_id sug"
    and "settings_systemPrompt (settings (mapkeeper (run JSON_parse acts s)))
           = settings_systemPrompt (settings (mapkeeper s))"
    and "cache (mapkeeper s2) key2 = Some rat2"
    and "request_rationale JSON_parse r3 = Inr rat3"
  shows "getAIRationale_start sug' (mapkeeper (run JSON_parse acts s)) = Returned rat
       \<and> getAIRationale JSON_parse r' seed' sug' (mapkeeper (run JSON_parse acts s))
           = (Inr rat, mapkeeper (run JSON_parse acts s), [CacheLookup])
       \<and> rationale_key (mapkeeper s) sug \<notin> set (pending (run JSON_parse acts s))
       \<and> (\<exists>kept. cache (mapkeeper (run JSON_parse acts2 s2)) key2 = Some kept)
       \<and> cache (fst (snd (getAIRationale_resume JSON_parse r3 key3 st3))) key3 = Some rat3"
proof -
  have kept: "cache (mapkeeper (run JSON_parse acts s)) (rationale_key (mapkeeper s) sug) = Some rat"
    and idle: "rationale_key (mapkeeper s) sug \<notin> set (pending (run JSON_parse acts s))"
    using run_keeps_entry [OF assms(1,2), of JSON_parse acts] by simp_all
  have "rationale_key (mapkeeper (run JSON_parse acts s)) sug' = rationale_key (mapkeeper s) sug"
    using assms(3,4) by (rule rationale_key_cong)
  with kept have hit: "cache (mapkeeper (run JSON_parse acts s))
      (rationale_key (mapkeeper (run JSON_parse acts s)) sug') = Some rat"
    by simp
  from getAIRationale_start_hit [OF hit] getAIRationale_hit [OF hit, of JSON_parse r' seed'] idle
    run_keeps_key [OF assms(5), of JSON_parse acts2] resume_stores [OF assms(6), of key3 st3]
  show ?thesis
    by (simp only: simp_thms)
qed

lemma example_session_settings:
  "settings (mapkeeper (run example_parse example_session s)) = example_settings"
  by (simp only: run_def example_session_def fold_simps step_settings action.case)

theorem browser_cache_never_expires_witness:
  "getAIRationale example_parse (NetworkFailure ''offline'') (Some (example_quote ''q1'' ''first''))
       (example_quote ''q2'' ''the same id'')
       (mapkeeper (run example_parse example_session
          \<lparr>mapkeeper = (example_app [] Map.empty [])\<lparr>cache :=
               [rationale_key (example_app [] Map.empty []) (example_quote ''q2'' ''second'') \<mapsto> default_rationale]\<rparr>,
           pending = []\<rparr>))
     = (Inr default_rationale,
        mapkeeper (run example_parse example_session
          \<lparr>mapkeeper = (example_app [] Map.empty [])\<lparr>cache :=
               [rationale_key (example_app [] Map.empty []) (example_quote ''q2'' ''second'') \<mapsto> default_rationale]\<rparr>,
           pending = []\<rparr>),
        [CacheLookup])"
proof -
  let ?app = "(example_app [] Map.empty [])\<lparr>cache :=
               [rationale_key (example_app [] Map.empty []) (example_quote ''q2'' ''second'') \<mapsto> default_rationale]\<rparr>"
  let ?s = "\<lparr>mapkeeper = ?app, pending = []\<rparr>"
  have key: "rationale_key ?app (example_quote ''q2'' ''second'')
      = rationale_key (example_app [] Map.empty []) (example_quote ''q2'' ''second'')"
    by (simp add: rationale_key_def example_app_def)
  have 1: "cache (mapkeeper ?s) (rationale_key (mapkeeper ?s) (example_quote ''q2'' ''second'')) = Some default_rationale"
    by (simp add: key)
  have 2: "rationale_key (mapkeeper ?s) (example_quote ''q2'' ''second'') \<notin> set (pending ?s)"
    by simp
  have 3: "quote_id (example_quote ''q2'' ''the same id'') = quote_id (example_quote ''q2'' ''second'')"
    by (simp add: example_quote_def)
  have 4: "settings_systemPrompt (settings (mapkeeper (run example_parse example_session ?s)))
           = settings_systemPrompt (settings (mapkeeper ?s))"
    by (simp add: example_session_settings example_app_def)
  have 5: "cache (mapkeeper ?s) (rationale_key (example_app [] Map.empty []) (example_quote ''q2'' ''second''))
      = Some default_rationale"
    by simp
  have 6: "request_rationale example_parse (Response 200 (Content ''{}'')) = Inr default_rationale"
    by (simp add: request_rationale_def ok_def example_parse_def rationale_of_parsed_def default_rationale_def)
  from browser_cache_never_expires [OF 1 2 3 4 5 6, THEN conjunct2, THEN conjunct1,
      of "NetworkFailure ''offline''" "Some (example_quote ''q1'' ''first'')"]
  show ?thesis .
qed

end
